theory Spec2Isabelle
  imports Main
begin

section \<open>Data model\<close>

text \<open>
  The rows read and written by \<^verbatim>\<open>FileDeleteService\<close>
  (\<^verbatim>\<open>src/services/file/delete.service.ts\<close>). Identifiers are \<^verbatim>\<open>BigInt\<close>s and are modelled
  as unbounded integers. The column \<^verbatim>\<open>file.id\<close> is written \<open>id'\<close>, since \<open>id\<close> is
  the identity function of HOL; the columns of \<^verbatim>\<open>temp_file\<close> carry the prefix \<open>temp_\<close>.
\<close>

datatype file_type = container | block | link

record file_row =
  id' :: int
  file_key :: string
  type :: file_type
  file_name :: string
  owner_id :: int

text \<open>
  The table \<^verbatim>\<open>file_path\<close> holds, for a file, the list of the identifiers of its ancestors
  (a materialised path, root first). The service reads the columns \<^verbatim>\<open>file_id\<close> and
  \<^verbatim>\<open>path\<close> and addresses a row by its unique \<^verbatim>\<open>file_id\<close>.
\<close>

record file_path_row =
  file_id :: int
  path :: "int list"

record temp_file_row =
  temp_id :: int
  temp_owner_id :: int
  temp_file_key :: string
  temp_file_name :: string
  temp_byte_size :: int
  temp_create_date :: int
  temp_parent_id :: int

text \<open>
  The state the service works on: the three tables behind \<^verbatim>\<open>PrismaService\<close> and the
  blob store behind \<^verbatim>\<open>StorageService\<close>. \<open>storage\<close> lists the keys of the blobs that are
  present; \<open>storage_calls\<close> records every invocation of \<^verbatim>\<open>storageService.deleteFile\<close>,
  in order.
\<close>

record db =
  file_tbl :: "file_row list"
  file_path_tbl :: "file_path_row list"
  temp_file_tbl :: "temp_file_row list"
  storage :: "string list"
  storage_calls :: "string list"

text \<open>
  The exceptions that leave the service. The three Nest exceptions are thrown by the
  service itself; \<open>PrismaRecordNotFound\<close> is the error (code P2025) with which
  \<^verbatim>\<open>findUniqueOrThrow\<close>, \<^verbatim>\<open>delete\<close> and \<^verbatim>\<open>update\<close> reject when the addressed row does
  not exist; \<open>PrismaRejected\<close> stands for any other rejection of a store statement
  (lost connection, timeout, conflict with a concurrent request).
  In the words of the specification, \<open>NotFoundException\<close> is \<^verbatim>\<open>NotFoundError\<close>,
  \<open>BadRequestException\<close> is \<^verbatim>\<open>ValidationError\<close> and \<open>InternalServerErrorException\<close> is
  \<^verbatim>\<open>FatalError\<close>.
\<close>

datatype error =
    NotFoundException
  | BadRequestException
  | InternalServerErrorException
  | PrismaRecordNotFound
  | PrismaRejected

text \<open>
  \<^verbatim>\<open>SpecialContainerNameSchema\<close> is imported from \<^verbatim>\<open>schemas/file.schema\<close>, which is not
  among the sources, so it is a parameter of the model: \<open>enum_keys\<close> are the names \<open>n\<close>
  for which \<^verbatim>\<open>n in SpecialContainerNameSchema.enum\<close> holds, and \<open>enum_trash\<close> is the value
  of \<^verbatim>\<open>SpecialContainerNameSchema.enum.trash\<close>.
\<close>

record SpecialContainerNameSchema =
  enum_keys :: "string list"
  enum_trash :: string

section \<open>The store\<close>

text \<open>
  Every statement sent to the store is awaited and may reject. A statement takes a flag
  \<open>rej\<close> that says whether it rejects for a reason outside the tables; the services
  take a function \<open>rejects\<close> from the position of a statement in the call to that flag.
\<close>

definition path_of :: "db \<Rightarrow> int \<Rightarrow> file_path_row option" where
  "path_of d i = find (\<lambda>r. file_id r = i) (file_path_tbl d)"

definition file_of :: "db \<Rightarrow> int \<Rightarrow> file_row option" where
  "file_of d i = find (\<lambda>f. id' f = i) (file_tbl d)"

text \<open>\<^verbatim>\<open>prisma.file.findUniqueOrThrow({include: {file_path: true}, where: {file_key}})\<close>\<close>

definition file_findUniqueOrThrow ::
  "bool \<Rightarrow> string \<Rightarrow> db \<Rightarrow> error + (file_row \<times> file_path_row option)" where
  "file_findUniqueOrThrow rej fileKey d =
     (if rej then Inl PrismaRejected
      else case find (\<lambda>f. file_key f = fileKey) (file_tbl d) of
             None \<Rightarrow> Inl PrismaRecordNotFound
           | Some f \<Rightarrow> Inr (f, path_of d (id' f)))"

text \<open>
  The filter \<^verbatim>\<open>path: {hasEvery: xs}\<close> on a scalar list: every value of \<open>xs\<close> occurs in
  the column.
\<close>

definition hasEvery :: "int list \<Rightarrow> int list \<Rightarrow> bool" where
  "hasEvery p xs = list_all (\<lambda>x. x \<in> set p) xs"

text \<open>\<^verbatim>\<open>prisma.file_path.findMany({where: {path: {hasEvery: xs}}})\<close>\<close>

definition file_path_findMany :: "bool \<Rightarrow> int list \<Rightarrow> db \<Rightarrow> error + file_path_row list" where
  "file_path_findMany rej xs d =
     (if rej then Inl PrismaRejected
      else Inr (filter (\<lambda>r. hasEvery (path r) xs) (file_path_tbl d)))"

text \<open>
  The same query with \<^verbatim>\<open>select: {file: true}\<close>: each row found is returned as the file
  it belongs to. \<^verbatim>\<open>file_path.file_id\<close> references \<^verbatim>\<open>file.id\<close>, so each row has its file.
\<close>

definition file_path_findMany_file :: "bool \<Rightarrow> int list \<Rightarrow> db \<Rightarrow> error + file_row list" where
  "file_path_findMany_file rej xs d =
     (if rej then Inl PrismaRejected
      else Inr (List.map_filter (\<lambda>r. file_of d (file_id r))
                  (filter (\<lambda>r. hasEvery (path r) xs) (file_path_tbl d))))"

text \<open>
  Modelled from the spec: the declaration of \<^verbatim>\<open>file_path\<close> is missing from the Prisma
  schema among the sources; the specification says that the deletion of a Node row
  cascades to the rows that hang on it. The schema declares \<^verbatim>\<open>onDelete: Cascade\<close> for
  \<^verbatim>\<open>temp_file.parent_id\<close>. \<open>cascade ids\<close> removes the dependent rows of the files \<open>ids\<close>.
\<close>

definition cascade :: "int list \<Rightarrow> db \<Rightarrow> db" where
  "cascade ids d =
     d\<lparr>file_path_tbl := filter (\<lambda>r. file_id r \<notin> set ids) (file_path_tbl d),
       temp_file_tbl := filter (\<lambda>t. temp_parent_id t \<notin> set ids) (temp_file_tbl d)\<rparr>"

text \<open>\<^verbatim>\<open>prisma.file.deleteMany({where: {id: {in: ids}}})\<close>\<close>

definition file_deleteMany :: "bool \<Rightarrow> int list \<Rightarrow> db \<Rightarrow> error + db" where
  "file_deleteMany rej ids d =
     (if rej then Inl PrismaRejected
      else Inr (cascade ids (d\<lparr>file_tbl := filter (\<lambda>f. id' f \<notin> set ids) (file_tbl d)\<rparr>)))"

text \<open>\<^verbatim>\<open>prisma.file.delete({where: {id}})\<close>: rejects when there is no such row.\<close>

definition file_delete :: "bool \<Rightarrow> int \<Rightarrow> db \<Rightarrow> error + (file_row \<times> db)" where
  "file_delete rej i d =
     (if rej then Inl PrismaRejected
      else case file_of d i of
             None \<Rightarrow> Inl PrismaRecordNotFound
           | Some f \<Rightarrow>
               Inr (f, cascade [i] (d\<lparr>file_tbl := filter (\<lambda>g. id' g \<noteq> i) (file_tbl d)\<rparr>)))"

text \<open>\<^verbatim>\<open>prisma.temp_file.delete({where: {id}})\<close>\<close>

definition temp_file_delete :: "bool \<Rightarrow> int \<Rightarrow> db \<Rightarrow> error + (temp_file_row \<times> db)" where
  "temp_file_delete rej i d =
     (if rej then Inl PrismaRejected
      else case find (\<lambda>t. temp_id t = i) (temp_file_tbl d) of
             None \<Rightarrow> Inl PrismaRecordNotFound
           | Some t \<Rightarrow>
               Inr (t, d\<lparr>temp_file_tbl := filter (\<lambda>u. temp_id u \<noteq> i) (temp_file_tbl d)\<rparr>))"

text \<open>
  Modelled from the spec: \<^verbatim>\<open>StorageService\<close> is not among the sources. The specification
  gives the blob store a \<^verbatim>\<open>delete(key) -> ok\<close> that is fire-and-forget and for which a
  missing blob is no error. The service does not await the call.
\<close>

definition storage_deleteFile :: "string \<Rightarrow> db \<Rightarrow> db" where
  "storage_deleteFile k d =
     d\<lparr>storage := filter (\<lambda>b. b \<noteq> k) (storage d),
       storage_calls := storage_calls d @ [k]\<rparr>"

section \<open>FileDeleteService\<close>

definition is_special :: "SpecialContainerNameSchema \<Rightarrow> file_row \<Rightarrow> file_path_row \<Rightarrow> bool" where
  "is_special sch f fp = (file_name f \<in> set (enum_keys sch) \<and> length (path fp) \<le> 1)"

text \<open>
  \<^verbatim>\<open>deleteFile(fileKey)\<close>. The store statements of a call are numbered 0 (the lookup of
  the file), 1 (the query for the rows below it, which the source calls
  \<^verbatim>\<open>ancestors\<close>), 2 (\<^verbatim>\<open>deleteMany\<close>) and 3 (\<^verbatim>\<open>delete\<close>). The result is the value or
  the exception of the call together with the state it leaves.
\<close>

definition deleteFile ::
  "SpecialContainerNameSchema \<Rightarrow> (nat \<Rightarrow> bool) \<Rightarrow> string \<Rightarrow> db \<Rightarrow> (error + file_row) \<times> db" where
  "deleteFile sch rejects fileKey d =
     (case file_findUniqueOrThrow (rejects 0) fileKey d of
        Inl e \<Rightarrow> (Inl e, d)
      | Inr (f, None) \<Rightarrow> (Inl InternalServerErrorException, d)
      | Inr (f, Some fp) \<Rightarrow>
          if is_special sch f fp then (Inl BadRequestException, d)
          else
            let d1 = (if type f = block then storage_deleteFile (file_key f) d else d) in
            (case file_path_findMany_file (rejects 1) (path fp @ [id' f]) d1 of
               Inl e \<Rightarrow> (Inl e, d1)
             | Inr ancestors \<Rightarrow>
                 let d2 = fold storage_deleteFile
                            (map file_key (filter (\<lambda>a. type a = block) ancestors)) d1 in
                 (case file_deleteMany (rejects 2) (map id' ancestors) d2 of
                    Inl e \<Rightarrow> (Inl e, d2)
                  | Inr d3 \<Rightarrow>
                      (case file_delete (rejects 3) (id' f) d3 of
                         Inl e \<Rightarrow> (Inl e, d3)
                       | Inr (g, d4) \<Rightarrow> (Inr g, d4)))))"

text \<open>\<^verbatim>\<open>deleteTemporaryFile(fileId)\<close>: one store statement, numbered 0.\<close>

definition deleteTemporaryFile :: "(nat \<Rightarrow> bool) \<Rightarrow> int \<Rightarrow> db \<Rightarrow> (error + temp_file_row) \<times> db" where
  "deleteTemporaryFile rejects fileId d =
     (case temp_file_delete (rejects 0) fileId d of
        Inl e \<Rightarrow> (Inl e, d)
      | Inr (t, d') \<Rightarrow> (Inr t, d'))"

text \<open>
  The query for the trash container of \<^verbatim>\<open>moveToTrash\<close>:
  \<^verbatim>\<open>prisma.file.findMany({select: {id, file_path}, where: {owner_id, file_name: enum.trash,
  file_path: {path: {equals: [rootFileId]}}}})\<close>
\<close>

definition file_findMany_trash ::
  "bool \<Rightarrow> SpecialContainerNameSchema \<Rightarrow> int \<Rightarrow> int \<Rightarrow> db
     \<Rightarrow> error + (int \<times> file_path_row option) list" where
  "file_findMany_trash rej sch memberId rootFileId d =
     (if rej then Inl PrismaRejected
      else Inr (map (\<lambda>f. (id' f, path_of d (id' f)))
                  (filter (\<lambda>f. owner_id f = memberId \<and> file_name f = enum_trash sch \<and>
                               (case path_of d (id' f) of
                                  None \<Rightarrow> False
                                | Some r \<Rightarrow> path r = [rootFileId]))
                     (file_tbl d))))"

text \<open>\<^verbatim>\<open>prisma.file_path.update({where: {file_id}, data: {path}})\<close>: rejects when there is
  no such row.\<close>

definition file_path_update :: "bool \<Rightarrow> int \<Rightarrow> int list \<Rightarrow> db \<Rightarrow> error + db" where
  "file_path_update rej i p d =
     (if rej then Inl PrismaRejected
      else case path_of d i of
             None \<Rightarrow> Inl PrismaRecordNotFound
           | Some _ \<Rightarrow>
               Inr (d\<lparr>file_path_tbl :=
                        map (\<lambda>r. if file_id r = i then r\<lparr>path := p\<rparr> else r) (file_path_tbl d)\<rparr>))"

text \<open>
  \<^verbatim>\<open>prisma.$transaction([...])\<close> runs the statements in order inside one transaction of the
  store. When one of them rejects the transaction rejects and is rolled back: the caller
  is left with the state from before the transaction.
\<close>

fun run_statements :: "(db \<Rightarrow> error + db) list \<Rightarrow> db \<Rightarrow> error + db" where
  "run_statements [] d = Inr d"
| "run_statements (st # sts) d =
     (case st d of Inl e \<Rightarrow> Inl e | Inr d' \<Rightarrow> run_statements sts d')"

definition transaction :: "(db \<Rightarrow> error + db) list \<Rightarrow> db \<Rightarrow> (error + unit) \<times> db" where
  "transaction sts d =
     (case run_statements sts d of Inl e \<Rightarrow> (Inl e, d) | Inr d' \<Rightarrow> (Inr (), d'))"

text \<open>
  \<^verbatim>\<open>moveToTrash(memberId, rootFileId, targetFileKey)\<close>. The store statements of a call are
  numbered 0 (the query for the trash container), 1 (the lookup of the target), 2 (the
  query for the rows below the target, \<^verbatim>\<open>targetAncestors\<close>) and, inside the transaction,
  \<open>3 + j\<close> for the update of the \<open>j\<close>-th element of \<^verbatim>\<open>targets\<close>.
  \<^verbatim>\<open>ancestor.path.slice(targetPath.length - 1)\<close> drops the first
  \<open>length targetPath - 1\<close> elements; \<open>targetPath\<close> is never empty.
\<close>

definition moveToTrash ::
  "SpecialContainerNameSchema \<Rightarrow> (nat \<Rightarrow> bool) \<Rightarrow> int \<Rightarrow> int \<Rightarrow> string \<Rightarrow> db
     \<Rightarrow> (error + bool) \<times> db" where
  "moveToTrash sch rejects memberId rootFileId targetFileKey d =
     (case file_findMany_trash (rejects 0) sch memberId rootFileId d of
        Inl e \<Rightarrow> (Inl e, d)
      | Inr [] \<Rightarrow> (Inl NotFoundException, d)
      | Inr ((trash0_id, None) # _) \<Rightarrow> (Inl NotFoundException, d)
      | Inr ((trash0_id, Some trash0_path) # more_trash) \<Rightarrow>
          if length more_trash + 1 > 1 then (Inl InternalServerErrorException, d)
          else
            let trashPath = path trash0_path @ [trash0_id] in
            (case file_findUniqueOrThrow (rejects 1) targetFileKey d of
               Inl e \<Rightarrow> (Inl e, d)
             | Inr (target, None) \<Rightarrow> (Inl InternalServerErrorException, d)
             | Inr (target, Some target_path) \<Rightarrow>
                 if is_special sch target target_path then (Inl BadRequestException, d)
                 else
                   let targetPath = path target_path @ [id' target] in
                   (case file_path_findMany (rejects 2) targetPath d of
                      Inl e \<Rightarrow> (Inl e, d)
                    | Inr targetAncestors \<Rightarrow>
                        let targets = targetAncestors @ [target_path] in
                        (case transaction
                                (map (\<lambda>(j, ancestor).
                                        file_path_update (rejects (3 + j)) (file_id ancestor)
                                          (trashPath @ drop (length targetPath - 1) (path ancestor)))
                                   (enumerate 0 targets)) d of
                           (Inl e, d') \<Rightarrow> (Inl e, d')
                         | (Inr _, d') \<Rightarrow> (Inr True, d')))))"

section \<open>Well-formed states and subtrees\<close>

text \<open>
  The constraints of the store and the invariant of the materialised paths, as far as
  the results below need them: \<^verbatim>\<open>file.id\<close> is the primary key and \<^verbatim>\<open>file.file_key\<close>
  is unique (both declared in the schema); \<^verbatim>\<open>file_path.file_id\<close> is unique (the service
  addresses a row by it) and references a file; and the path of a file with a
  non-empty path ends in the identifier of its parent, whose own path is the rest.
\<close>

definition keys_unique :: "db \<Rightarrow> bool" where
  "keys_unique d \<longleftrightarrow>
     distinct (map id' (file_tbl d)) \<and>
     distinct (map file_key (file_tbl d)) \<and>
     distinct (map file_id (file_path_tbl d))"

definition refs_ok :: "db \<Rightarrow> bool" where
  "refs_ok d \<longleftrightarrow> list_all (\<lambda>r. file_of d (file_id r) \<noteq> None) (file_path_tbl d)"

definition paths_closed :: "db \<Rightarrow> bool" where
  "paths_closed d \<longleftrightarrow>
     list_all (\<lambda>r. path r = [] \<or>
                   map_option path (path_of d (last (path r))) = Some (butlast (path r)))
       (file_path_tbl d)"

definition wf_db :: "db \<Rightarrow> bool" where
  "wf_db d \<longleftrightarrow> keys_unique d \<and> refs_ok d \<and> paths_closed d"

text \<open>
  \<^verbatim>\<open>descendantsOf\<close> of the specification, read on the materialised paths the service
  works with: the descendants of the node \<open>n\<close> are the nodes whose path passes through
  \<open>n\<close>, given by their \<^verbatim>\<open>file_path\<close> rows. \<open>subtree d n\<close> lists the file rows of the
  descendants of \<open>n\<close> and of \<open>n\<close> itself.
\<close>

definition descendantsOf :: "db \<Rightarrow> int \<Rightarrow> file_path_row list" where
  "descendantsOf d n = filter (\<lambda>r. n \<in> set (path r)) (file_path_tbl d)"

definition subtree :: "db \<Rightarrow> int \<Rightarrow> file_row list" where
  "subtree d n =
     filter (\<lambda>f. id' f = n \<or> id' f \<in> set (map file_id (descendantsOf d n))) (file_tbl d)"

text \<open>Every block row has its blob in the blob store.\<close>

definition blobs_present :: "db \<Rightarrow> bool" where
  "blobs_present d \<longleftrightarrow>
     list_all (\<lambda>f. type f = block \<longrightarrow> file_key f \<in> set (storage d)) (file_tbl d)"

text \<open>
  Two abbreviations for what a call of \<^verbatim>\<open>deleteFile\<close> on the file \<open>f\<close> with path row \<open>fp\<close>
  computes on its way: the result of its query (the list \<^verbatim>\<open>ancestors\<close> of the source) and
  the keys it passes to \<^verbatim>\<open>storageService.deleteFile\<close>, in order.
\<close>

definition found_below :: "db \<Rightarrow> file_row \<Rightarrow> file_path_row \<Rightarrow> file_row list" where
  "found_below d f fp =
     List.map_filter (\<lambda>r. file_of d (file_id r))
       (filter (\<lambda>r. hasEvery (path r) (path fp @ [id' f])) (file_path_tbl d))"

definition blob_calls :: "file_row \<Rightarrow> file_row list \<Rightarrow> string list" where
  "blob_calls f ancestors =
     (if type f = block then [file_key f] else []) @
     map file_key (filter (\<lambda>a. type a = block) ancestors)"

section \<open>Example states\<close>

text \<open>
  A schema with two well-known names, and a small store: a root container, below it the
  containers \<open>home\<close>, \<open>trash\<close> and \<open>docs\<close>, and below \<open>docs\<close> a block, a container
  with a second block in it, and a container that is named \<open>trash\<close> as well.
\<close>

definition sch0 :: SpecialContainerNameSchema where
  "sch0 = \<lparr>enum_keys = [''home'', ''trash''], enum_trash = ''trash''\<rparr>"

definition mk_file :: "int \<Rightarrow> string \<Rightarrow> file_type \<Rightarrow> string \<Rightarrow> file_row" where
  "mk_file i k t n = \<lparr>id' = i, file_key = k, type = t, file_name = n, owner_id = 7\<rparr>"

definition mk_path :: "int \<Rightarrow> int list \<Rightarrow> file_path_row" where
  "mk_path i p = \<lparr>file_id = i, path = p\<rparr>"

definition temp0 :: temp_file_row where
  "temp0 = \<lparr>temp_id = 1, temp_owner_id = 7, temp_file_key = ''u1'', temp_file_name = ''c.txt'',
            temp_byte_size = 0, temp_create_date = 0, temp_parent_id = 3\<rparr>"

definition db0 :: db where
  "db0 = \<lparr>file_tbl = [mk_file 1 ''k1'' container ''root'', mk_file 2 ''k2'' container ''trash'',
                      mk_file 3 ''k3'' container ''docs'', mk_file 4 ''k4'' block ''a.txt'',
                      mk_file 5 ''k5'' container ''sub'', mk_file 6 ''k6'' block ''b.txt'',
                      mk_file 7 ''k7'' container ''home'', mk_file 10 ''k10'' container ''trash''],
           file_path_tbl = [mk_path 1 [], mk_path 2 [1], mk_path 3 [1], mk_path 4 [1, 3],
                           mk_path 5 [1, 3], mk_path 6 [1, 3, 5], mk_path 7 [1],
                           mk_path 10 [1, 3]],
           temp_file_tbl = [temp0],
           storage = [''k4'', ''k6''],
           storage_calls = []\<rparr>"

text \<open>The same store without a trash container, and with a second one.\<close>

definition db_no_trash :: db where
  "db_no_trash =
     db0\<lparr>file_tbl := filter (\<lambda>f. id' f \<noteq> 2) (file_tbl db0),
         file_path_tbl := filter (\<lambda>r. file_id r \<noteq> 2) (file_path_tbl db0)\<rparr>"

definition db_two_trash :: db where
  "db_two_trash =
     db0\<lparr>file_tbl := file_tbl db0 @ [mk_file 8 ''k8'' container ''trash''],
         file_path_tbl := file_path_tbl db0 @ [mk_path 8 [1]]\<rparr>"

text \<open>The same store with a file row that has no \<^verbatim>\<open>file_path\<close> row.\<close>

definition db_no_path :: db where
  "db_no_path = db0\<lparr>file_tbl := file_tbl db0 @ [mk_file 9 ''k9'' block ''lost'']\<rparr>"

text \<open>No store statement rejects; only the statement at position \<open>k\<close> rejects.\<close>

definition never :: "nat \<Rightarrow> bool" where
  "never n = False"

definition only_at :: "nat \<Rightarrow> nat \<Rightarrow> bool" where
  "only_at k n = (n = k)"

section \<open>Chunked upload\<close>

text \<open>
  Modelled from the spec: the Chunk Assembler and the Upload Registrar. Their code is not
  among the sources (only tests of an earlier upload service are), so both are modelled
  from sections 4.3 and 4.4 of the specification, with the errors of its section 7.
  Failures of the scratch storage and of the blob store are not part of the model,
  except that a merge fails with \<open>IOError\<close> when a scratch chunk it has to read is
  missing.

  The assembler writes each chunk to the scratch location \<open>(uploadKey, chunkIndex)\<close>,
  tracks per upload key the set of indices received, and, when that set equals
  \<open>{0 ..< totalChunks}\<close>, merges: it reads the scratch chunks in index order, writes
  their concatenation to the blob store under the key of the upload and deletes the
  scratch chunks of the upload. \<open>merges\<close> records the merges performed, in order.
\<close>

datatype spec_error = NotFoundError | ConflictError | ValidationError | IOError | FatalError

record assembler =
  scratch :: "string \<times> nat \<Rightarrow> string option"
  received :: "string \<Rightarrow> nat set"
  blob_store :: "string \<Rightarrow> string option"
  merges :: "string list"

text \<open>
  Modelled from the spec: the merge of section 4.3, "reads scratch chunks in index order,
  concatenates into one blob written to the Blob Gateway under the upload's eventual
  permanent key, then deletes all scratch chunk artifacts".
\<close>

definition merge :: "string \<Rightarrow> nat \<Rightarrow> assembler \<Rightarrow> spec_error + assembler" where
  "merge uploadKey totalChunks a =
     (if list_all (\<lambda>i. scratch a (uploadKey, i) \<noteq> None) [0 ..< totalChunks]
      then Inr (a\<lparr>blob_store := (blob_store a)
                      (uploadKey \<mapsto> concat (map (\<lambda>i. the (scratch a (uploadKey, i)))
                                                [0 ..< totalChunks])),
                  scratch := (\<lambda>(k, i). if k = uploadKey then None else scratch a (k, i)),
                  merges := merges a @ [uploadKey]\<rparr>)
      else Inl IOError)"

text \<open>
  Modelled from the spec: the Chunk Assembler of section 4.3, which "accepts (uploadKey,
  chunkIndex, totalChunks, bytes)", writes the chunk to its scratch location, adds the
  index to the set received (a second chunk with the same index overwrites the first),
  and "when the received set equals {0 .. totalChunks-1}, triggers merge"; it returns
  \<open>True\<close> (done) when the chunk completes the set and \<open>False\<close> otherwise.
\<close>

definition accept ::
  "string \<Rightarrow> nat \<Rightarrow> nat \<Rightarrow> string \<Rightarrow> assembler \<Rightarrow> (spec_error + bool) \<times> assembler" where
  "accept uploadKey chunkIndex totalChunks bytes a =
     (let a1 = a\<lparr>scratch := (scratch a)((uploadKey, chunkIndex) \<mapsto> bytes),
                 received := (received a)(uploadKey := insert chunkIndex (received a uploadKey))\<rparr>
      in if received a1 uploadKey = {0 ..< totalChunks}
         then (case merge uploadKey totalChunks a1 of
                 Inl e \<Rightarrow> (Inl e, a1)
               | Inr a2 \<Rightarrow> (Inr True, a2))
         else (Inr False, a1))"

text \<open>
  The registrar keeps the In-Flight Upload rows, of which the model holds the declared
  total chunk count by upload key, and the permanent nodes it has created, of which the
  model holds the key and the byte size.
\<close>

record uploads =
  in_flight :: "string \<Rightarrow> nat option"
  asm :: assembler
  nodes :: "(string \<times> nat) list"

text \<open>
  Modelled from the spec: \<^verbatim>\<open>receiveChunk\<close> of section 4.4, which "fails with NotFoundError
  if no matching In-Flight Upload exists; delegates to Chunk Assembler; on
  assembler-reported completion, atomically deletes the In-Flight Upload row and creates
  the permanent Node", with the byte size of the final blob.
\<close>

definition receiveChunk ::
  "string \<Rightarrow> nat \<Rightarrow> string \<Rightarrow> uploads \<Rightarrow> (spec_error + bool) \<times> uploads" where
  "receiveChunk uploadKey index bytes u =
     (case in_flight u uploadKey of
        None \<Rightarrow> (Inl NotFoundError, u)
      | Some totalChunks \<Rightarrow>
          (case accept uploadKey index totalChunks bytes (asm u) of
             (Inl e, a) \<Rightarrow> (Inl e, u\<lparr>asm := a\<rparr>)
           | (Inr False, a) \<Rightarrow> (Inr False, u\<lparr>asm := a\<rparr>)
           | (Inr True, a) \<Rightarrow>
               (Inr True,
                u\<lparr>asm := a,
                  in_flight := (in_flight u)(uploadKey := None),
                  nodes := nodes u @
                    [(uploadKey, case blob_store a uploadKey of None \<Rightarrow> 0 | Some b \<Rightarrow> length b)]\<rparr>)))"



text \<open>Every node the registrar has created has its blob in the blob store.\<close>

definition nodes_have_blobs :: "uploads \<Rightarrow> bool" where
  "nodes_have_blobs u \<longleftrightarrow> list_all (\<lambda>(k, n). blob_store (asm u) k \<noteq> None) (nodes u)"

text \<open>
  An assembler that has received nothing, and a registrar with one node, created
  earlier, and an upload of two chunks that has been initiated and has received nothing
  yet.
\<close>

definition asm0 :: assembler where
  "asm0 = \<lparr>scratch = (\<lambda>_. None), received = (\<lambda>_. {}), blob_store = (\<lambda>_. None), merges = []\<rparr>"

definition up0 :: uploads where
  "up0 = \<lparr>in_flight = (\<lambda>_. None)(''u1'' \<mapsto> 2),
           asm = asm0\<lparr>blob_store := (\<lambda>_. None)(''n0'' \<mapsto> ''abc'')\<rparr>,
           nodes = [(''n0'', 3)]\<rparr>"


section \<open>Moving a node\<close>

text \<open>
  Modelled from the spec: \<^verbatim>\<open>move(node, newParent)\<close> of section 4.2. The service among the
  sources has \<^verbatim>\<open>moveToTrash\<close> only, whose documentation refers to an update service
  that is not among the sources. By the specification a special container cannot be
  moved, which "fails with ValidationError"; a move "fails with ValidationError if
  newParent is node itself or a descendant of node"; otherwise the node is detached and
  attached "as one atomic unit", which on the materialised paths means that the path of
  the node becomes the path of the new parent followed by its identifier, and that the
  paths of the descendants of the node follow. A key that names no node gives
  \<open>NotFoundError\<close>, a node without path row \<open>FatalError\<close>.
\<close>

definition move ::
  "SpecialContainerNameSchema \<Rightarrow> string \<Rightarrow> string \<Rightarrow> db \<Rightarrow> (spec_error + unit) \<times> db" where
  "move sch nodeKey newParentKey d =
     (case find (\<lambda>f. file_key f = nodeKey) (file_tbl d) of
        None \<Rightarrow> (Inl NotFoundError, d)
      | Some node \<Rightarrow>
          (case path_of d (id' node) of
             None \<Rightarrow> (Inl FatalError, d)
           | Some node_path \<Rightarrow>
               if is_special sch node node_path then (Inl ValidationError, d)
               else
                 (case find (\<lambda>f. file_key f = newParentKey) (file_tbl d) of
                    None \<Rightarrow> (Inl NotFoundError, d)
                  | Some parent \<Rightarrow>
                      (case path_of d (id' parent) of
                         None \<Rightarrow> (Inl FatalError, d)
                       | Some parent_path \<Rightarrow>
                           if id' parent = id' node \<or> id' node \<in> set (path parent_path)
                           then (Inl ValidationError, d)
                           else
                             (Inr (),
                              d\<lparr>file_path_tbl :=
                                  map (\<lambda>r. if file_id r = id' node \<or> id' node \<in> set (path r)
                                            then r\<lparr>path := (path parent_path @ [id' parent]) @
                                                             drop (length (path node_path)) (path r)\<rparr>
                                            else r)
                                    (file_path_tbl d)\<rparr>)))))"

section \<open>Guards of deleteFile\<close>

text \<open>
  C10. \<^verbatim>\<open>deleteFile\<close> on a file row that exists but has no \<^verbatim>\<open>file_path\<close> row fails with
  \<open>InternalServerErrorException\<close> (the FatalError of the specification, not its
  NotFoundError), and nothing has been deleted: the tables, the blobs and the log of
  storage calls are as before.
\<close>

theorem deleteFile_without_path:
  assumes "\<not> rejects 0"
    and "find (\<lambda>f. file_key f = fileKey) (file_tbl d) = Some f"
    and "path_of d (id' f) = None"
  shows "deleteFile sch rejects fileKey d = (Inl InternalServerErrorException, d)"
  using assms by (simp add: deleteFile_def file_findUniqueOrThrow_def)

theorem deleteFile_without_path_witness:
  "\<not> never 0 \<and>
   find (\<lambda>f. file_key f = ''k9'') (file_tbl db_no_path) = Some (mk_file 9 ''k9'' block ''lost'') \<and>
   path_of db_no_path (id' (mk_file 9 ''k9'' block ''lost'')) = None \<and>
   deleteFile sch0 never ''k9'' db_no_path = (Inl InternalServerErrorException, db_no_path)"
proof -
  have h0: "\<not> never 0"
    by (simp add: never_def)
  have h1: "find (\<lambda>f. file_key f = ''k9'') (file_tbl db_no_path)
              = Some (mk_file 9 ''k9'' block ''lost'')"
    by code_simp
  have h2: "path_of db_no_path (id' (mk_file 9 ''k9'' block ''lost'')) = None"
    by code_simp
  show ?thesis
    using h0 h1 h2
      deleteFile_without_path [where rejects = never and fileKey = "''k9''" and d = db_no_path
        and f = "mk_file 9 ''k9'' block ''lost''" and sch = sch0]
    by simp
qed

lemma findMany_file_error: "file_path_findMany_file rej xs d = Inl e \<Longrightarrow> e = PrismaRejected"
  by (simp add: file_path_findMany_file_def split: if_splits)

lemma deleteMany_error: "file_deleteMany rej ids d = Inl e \<Longrightarrow> e = PrismaRejected"
  by (simp add: file_deleteMany_def split: if_splits)

lemma delete_error:
  "file_delete rej i d = Inl e \<Longrightarrow> e = PrismaRejected \<or> e = PrismaRecordNotFound"
  by (auto simp add: file_delete_def split: if_splits option.splits)

text \<open>Past its guards, \<^verbatim>\<open>deleteFile\<close> is the sequence of storage calls and row deletions.\<close>

lemma deleteFile_proceeds:
  assumes "\<not> rejects 0"
    and "find (\<lambda>f. file_key f = fileKey) (file_tbl d) = Some f"
    and "path_of d (id' f) = Some fp"
    and "\<not> is_special sch f fp"
  shows "deleteFile sch rejects fileKey d =
          (let d1 = (if type f = block then storage_deleteFile (file_key f) d else d) in
            (case file_path_findMany_file (rejects 1) (path fp @ [id' f]) d1 of
               Inl e \<Rightarrow> (Inl e, d1)
             | Inr ancestors \<Rightarrow>
                 let d2 = fold storage_deleteFile
                            (map file_key (filter (\<lambda>a. type a = block) ancestors)) d1 in
                 (case file_deleteMany (rejects 2) (map id' ancestors) d2 of
                    Inl e \<Rightarrow> (Inl e, d2)
                  | Inr d3 \<Rightarrow>
                      (case file_delete (rejects 3) (id' f) d3 of
                         Inl e \<Rightarrow> (Inl e, d3)
                       | Inr (g, d4) \<Rightarrow> (Inr g, d4)))))"
  using assms by (simp add: deleteFile_def file_findUniqueOrThrow_def)

text \<open>
  C5. A special container is a file whose name is a key of
  \<^verbatim>\<open>SpecialContainerNameSchema.enum\<close> and whose path has at most one element (the root or
  a child of the root). \<^verbatim>\<open>deleteFile\<close> has no force flag: on a special container it fails
  with \<open>BadRequestException\<close> (the ValidationError of the specification) and leaves the
  tables, the blobs and the log of storage calls as they were. On a file with a
  well-known name and a longer path the guard does not fire: the call does not fail with
  \<open>BadRequestException\<close>.
\<close>

theorem deleteFile_special_container:
  assumes "\<not> rejects 0"
    and "find (\<lambda>f. file_key f = fileKey) (file_tbl d) = Some f"
    and "path_of d (id' f) = Some fp"
    and "file_name f \<in> set (enum_keys sch)"
  shows "(length (path fp) \<le> 1 \<longrightarrow>
            deleteFile sch rejects fileKey d = (Inl BadRequestException, d)) \<and>
         (1 < length (path fp) \<longrightarrow>
            fst (deleteFile sch rejects fileKey d) \<noteq> Inl BadRequestException)"
proof (intro conjI impI)
  assume "length (path fp) \<le> 1"
  with assms show "deleteFile sch rejects fileKey d = (Inl BadRequestException, d)"
    by (simp add: deleteFile_def file_findUniqueOrThrow_def is_special_def)
next
  assume "1 < length (path fp)"
  then have "\<not> is_special sch f fp"
    by (simp add: is_special_def)
  note eq = deleteFile_proceeds [where rejects = rejects, OF assms(1-3) this]
  show "fst (deleteFile sch rejects fileKey d) \<noteq> Inl BadRequestException"
    unfolding eq Let_def
    by (auto split: sum.splits prod.splits
          dest: findMany_file_error deleteMany_error delete_error)
qed

theorem deleteFile_special_container_witness:
  "deleteFile sch0 never ''k7'' db0 = (Inl BadRequestException, db0) \<and>
   fst (deleteFile sch0 never ''k10'' db0) \<noteq> Inl BadRequestException \<and>
   fst (deleteFile sch0 never ''k10'' db0) = Inr (mk_file 10 ''k10'' container ''trash'')"
proof -
  have h0: "\<not> never 0"
    by (simp add: never_def)
  have a1: "find (\<lambda>f. file_key f = ''k7'') (file_tbl db0) = Some (mk_file 7 ''k7'' container ''home'')"
    by code_simp
  have a2: "path_of db0 (id' (mk_file 7 ''k7'' container ''home'')) = Some (mk_path 7 [1])"
    by code_simp
  have a3: "file_name (mk_file 7 ''k7'' container ''home'') \<in> set (enum_keys sch0)"
    by code_simp
  have a4: "length (path (mk_path 7 [1])) \<le> 1"
    by code_simp
  have b1: "find (\<lambda>f. file_key f = ''k10'') (file_tbl db0)
              = Some (mk_file 10 ''k10'' container ''trash'')"
    by code_simp
  have b2: "path_of db0 (id' (mk_file 10 ''k10'' container ''trash'')) = Some (mk_path 10 [1, 3])"
    by code_simp
  have b3: "file_name (mk_file 10 ''k10'' container ''trash'') \<in> set (enum_keys sch0)"
    by code_simp
  have b4: "1 < length (path (mk_path 10 [1, 3]))"
    by code_simp
  from deleteFile_special_container [where rejects = never, OF h0 a1 a2 a3, THEN conjunct1] a4
  have "deleteFile sch0 never ''k7'' db0 = (Inl BadRequestException, db0)"
    by blast
  moreover
  from deleteFile_special_container [where rejects = never, OF h0 b1 b2 b3, THEN conjunct2] b4
  have "fst (deleteFile sch0 never ''k10'' db0) \<noteq> Inl BadRequestException"
    by blast
  moreover have "fst (deleteFile sch0 never ''k10'' db0) = Inr (mk_file 10 ''k10'' container ''trash'')"
    by code_simp
  ultimately show ?thesis
    by (intro conjI)
qed

section \<open>Guards of moveToTrash\<close>

text \<open>Every row the trash query returns carries its \<^verbatim>\<open>file_path\<close>: the filter asks for it.\<close>

lemma trash_found_has_path:
  assumes "file_findMany_trash False sch memberId rootFileId d = Inr ((i, po) # rest)"
  shows "\<exists>r. po = Some r"
proof -
  let ?P = "\<lambda>f. owner_id f = memberId \<and> file_name f = enum_trash sch \<and>
                 (case path_of d (id' f) of None \<Rightarrow> False | Some r \<Rightarrow> path r = [rootFileId])"
  from assms have eq: "map (\<lambda>f. (id' f, path_of d (id' f))) (filter ?P (file_tbl d)) = (i, po) # rest"
    by (simp add: file_findMany_trash_def)
  then obtain f fs where ffs: "filter ?P (file_tbl d) = f # fs" and po: "po = path_of d (id' f)"
    by (cases "filter ?P (file_tbl d)") auto
  from ffs have "f \<in> set (filter ?P (file_tbl d))" by simp
  then have "?P f" by simp
  with po show ?thesis by (cases "path_of d (id' f)") auto
qed

text \<open>
  C2 (amended). The trash containers found for the owner are the rows of the first query.
  When none is found \<^verbatim>\<open>moveToTrash\<close> fails with \<open>NotFoundException\<close>; when more than one
  is found it fails with \<open>InternalServerErrorException\<close> (the FatalError of the
  specification). In both cases no path is changed: the state is as before.
\<close>

theorem moveToTrash_trash_count:
  assumes "\<not> rejects 0"
    and "file_findMany_trash False sch memberId rootFileId d = Inr trash"
  shows "(length trash = 0 \<longrightarrow>
            moveToTrash sch rejects memberId rootFileId targetFileKey d = (Inl NotFoundException, d)) \<and>
         (1 < length trash \<longrightarrow>
            moveToTrash sch rejects memberId rootFileId targetFileKey d =
              (Inl InternalServerErrorException, d))"
proof (intro conjI impI)
  assume "length trash = 0"
  with assms show "moveToTrash sch rejects memberId rootFileId targetFileKey d = (Inl NotFoundException, d)"
    by (simp add: moveToTrash_def)
next
  assume len: "1 < length trash"
  then obtain i po rest where t: "trash = (i, po) # rest" and m: "rest \<noteq> []"
    by (cases trash) auto
  from assms(2) t obtain r where "po = Some r"
    using trash_found_has_path by blast
  with assms t m show "moveToTrash sch rejects memberId rootFileId targetFileKey d =
              (Inl InternalServerErrorException, d)"
    by (cases rest) (simp_all add: moveToTrash_def)
qed

theorem moveToTrash_trash_count_witness:
  "moveToTrash sch0 never 7 1 ''k3'' db_no_trash = (Inl NotFoundException, db_no_trash) \<and>
   moveToTrash sch0 never 7 1 ''k3'' db_two_trash = (Inl InternalServerErrorException, db_two_trash)"
proof -
  have h0: "\<not> never 0"
    by (simp add: never_def)
  have a: "file_findMany_trash False sch0 7 1 db_no_trash = Inr []"
    by code_simp
  have b: "file_findMany_trash False sch0 7 1 db_two_trash =
             Inr [(2, Some (mk_path 2 [1])), (8, Some (mk_path 8 [1]))]"
    by code_simp
  from moveToTrash_trash_count [where rejects = never, OF h0 a, THEN conjunct1]
  have "moveToTrash sch0 never 7 1 ''k3'' db_no_trash = (Inl NotFoundException, db_no_trash)"
    by simp
  moreover from moveToTrash_trash_count [where rejects = never, OF h0 b, THEN conjunct2]
  have "moveToTrash sch0 never 7 1 ''k3'' db_two_trash
          = (Inl InternalServerErrorException, db_two_trash)"
    by simp
  ultimately show ?thesis
    by simp
qed

text \<open>
  C2 as stated fails: with no trash container the call fails with
  \<open>NotFoundException\<close>, not with \<open>InternalServerErrorException\<close>.
\<close>

theorem moveToTrash_no_trash_counterexample:
  "file_findMany_trash False sch0 7 1 db_no_trash = Inr [] \<and>
   fst (moveToTrash sch0 never 7 1 ''k3'' db_no_trash) = Inl NotFoundException \<and>
   fst (moveToTrash sch0 never 7 1 ''k3'' db_no_trash) \<noteq> Inl InternalServerErrorException"
  by code_simp

text \<open>\<^verbatim>\<open>moveToTrash\<close> on a special container: the outcome, by the guards of the source.\<close>

lemma moveToTrash_special:
  assumes "find (\<lambda>f. file_key f = targetFileKey) (file_tbl d) = Some t"
    and "path_of d (id' t) = Some tp"
    and "is_special sch t tp"
  shows "snd (moveToTrash sch rejects memberId rootFileId targetFileKey d) = d \<and>
         (\<exists>e. fst (moveToTrash sch rejects memberId rootFileId targetFileKey d) = Inl e) \<and>
         (\<not> rejects 0 \<and> \<not> rejects 1 \<and>
          (\<exists>x. file_findMany_trash False sch memberId rootFileId d = Inr [x]) \<longrightarrow>
            fst (moveToTrash sch rejects memberId rootFileId targetFileKey d)
              = Inl BadRequestException)"
proof (cases "file_findMany_trash (rejects 0) sch memberId rootFileId d")
  case (Inl e)
  then have "rejects 0"
    by (simp add: file_findMany_trash_def split: if_splits)
  with Inl show ?thesis
    by (simp add: moveToTrash_def)
next
  case (Inr trash)
  then have r0: "\<not> rejects 0"
    by (simp add: file_findMany_trash_def split: if_splits)
  show ?thesis
  proof (cases trash)
    case Nil
    with Inr r0 show ?thesis
      by (simp add: moveToTrash_def)
  next
    case (Cons x rest)
    obtain i po where x: "x = (i, po)"
      by (cases x)
    from Inr r0 Cons x obtain r where po: "po = Some r"
      using trash_found_has_path [of sch memberId rootFileId d i po rest] by auto
    show ?thesis
      using Inr r0 Cons x po assms
      by (cases rest; cases "rejects 1")
         (simp_all add: moveToTrash_def file_findUniqueOrThrow_def)
  qed
qed

text \<open>
  C6. Let \<open>S\<close> be a special container: a file, named by \<open>targetFileKey\<close>, whose name is
  a key of \<^verbatim>\<open>SpecialContainerNameSchema.enum\<close> and whose path has at most one element.
  Moving \<open>S\<close> to any new parent fails with \<open>ValidationError\<close> and changes nothing.
  \<^verbatim>\<open>moveToTrash\<close> on \<open>S\<close> first resolves the trash container of the owner; once that has
  given exactly one trash container and neither lookup was rejected by the store, the
  call fails with \<open>BadRequestException\<close> (the ValidationError of the specification).
  Whatever the outcome of the resolution, the call fails and leaves every path (the
  whole state) as it was.
\<close>

theorem moveToTrash_special_container:
  assumes "find (\<lambda>f. file_key f = targetFileKey) (file_tbl d) = Some t"
    and "path_of d (id' t) = Some tp"
    and "is_special sch t tp"
  shows "move sch targetFileKey newParentKey d = (Inl ValidationError, d) \<and>
         snd (moveToTrash sch rejects memberId rootFileId targetFileKey d) = d \<and>
         (\<exists>e. fst (moveToTrash sch rejects memberId rootFileId targetFileKey d) = Inl e) \<and>
         (\<not> rejects 0 \<and> \<not> rejects 1 \<and>
          (\<exists>x. file_findMany_trash False sch memberId rootFileId d = Inr [x]) \<longrightarrow>
            fst (moveToTrash sch rejects memberId rootFileId targetFileKey d)
              = Inl BadRequestException)"
proof -
  from assms have "move sch targetFileKey newParentKey d = (Inl ValidationError, d)"
    by (simp add: move_def)
  with moveToTrash_special [OF assms, of rejects memberId rootFileId] show ?thesis
    by (elim conjE) (intro conjI; assumption)
qed

theorem moveToTrash_special_container_witness:
  "is_special sch0 (mk_file 7 ''k7'' container ''home'') (mk_path 7 [1]) \<and>
   move sch0 ''k7'' ''k3'' db0 = (Inl ValidationError, db0) \<and>
   snd (moveToTrash sch0 never 7 1 ''k7'' db0) = db0 \<and>
   fst (moveToTrash sch0 never 7 1 ''k7'' db0) = Inl BadRequestException \<and>
   fst (move sch0 ''k5'' ''k2'' db0) = Inr () \<and>
   map path (file_path_tbl (snd (move sch0 ''k5'' ''k2'' db0)))
     = [[], [1], [1], [1, 3], [1, 2], [1, 2, 5], [1], [1, 3]]"
proof -
  have a1: "find (\<lambda>f. file_key f = ''k7'') (file_tbl db0) = Some (mk_file 7 ''k7'' container ''home'')"
    by code_simp
  have a2: "path_of db0 (id' (mk_file 7 ''k7'' container ''home'')) = Some (mk_path 7 [1])"
    by code_simp
  have a3: "is_special sch0 (mk_file 7 ''k7'' container ''home'') (mk_path 7 [1])"
    by code_simp
  have a4: "file_findMany_trash False sch0 7 1 db0 = Inr [(2, Some (mk_path 2 [1]))]"
    by code_simp
  have a5: "\<not> never 0 \<and> \<not> never 1"
    by (simp add: never_def)
  have a6: "fst (move sch0 ''k5'' ''k2'' db0) = Inr ()"
    by code_simp
  have a7: "map path (file_path_tbl (snd (move sch0 ''k5'' ''k2'' db0)))
              = [[], [1], [1], [1, 3], [1, 2], [1, 2, 5], [1], [1, 3]]"
    by code_simp
  note th = moveToTrash_special_container [where rejects = never and memberId = 7
      and rootFileId = 1 and newParentKey = "''k3''", OF a1 a2 a3]
  note b1 = th [THEN conjunct1]
  note b2 = th [THEN conjunct2, THEN conjunct1]
  from th a4 a5 have b3: "fst (moveToTrash sch0 never 7 1 ''k7'' db0) = Inl BadRequestException"
    by blast
  from a3 b1 b2 b3 a6 a7 show ?thesis
    by (intro conjI)
qed

section \<open>deleteTemporaryFile\<close>

text \<open>
  C8 (amended). A call of \<^verbatim>\<open>deleteTemporaryFile\<close> that returns has deleted the
  \<^verbatim>\<open>temp_file\<close> row and nothing else (the blob store is not touched), and it returns the
  row. A second call for the same id fails, with the record-not-found error of the store
  unless the store rejects the statement for another reason, and leaves the state
  unchanged.
\<close>

theorem deleteTemporaryFile_twice:
  assumes "deleteTemporaryFile rejects fileId d = (Inr t, d')"
  shows "find (\<lambda>u. temp_id u = fileId) (temp_file_tbl d) = Some t \<and>
         d' = d\<lparr>temp_file_tbl := filter (\<lambda>u. temp_id u \<noteq> fileId) (temp_file_tbl d)\<rparr> \<and>
         deleteTemporaryFile rejects' fileId d' =
           (Inl (if rejects' 0 then PrismaRejected else PrismaRecordNotFound), d')"
proof -
  from assms have f: "find (\<lambda>u. temp_id u = fileId) (temp_file_tbl d) = Some t"
    and d': "d' = d\<lparr>temp_file_tbl := filter (\<lambda>u. temp_id u \<noteq> fileId) (temp_file_tbl d)\<rparr>"
    by (auto simp add: deleteTemporaryFile_def temp_file_delete_def
          split: if_splits option.splits)
  have "find (\<lambda>u. temp_id u = fileId) (temp_file_tbl d') = None"
    by (simp add: d' find_None_iff)
  then have "deleteTemporaryFile rejects' fileId d' =
           (Inl (if rejects' 0 then PrismaRejected else PrismaRecordNotFound), d')"
    by (simp add: deleteTemporaryFile_def temp_file_delete_def)
  with f d' show ?thesis
    by blast
qed

theorem deleteTemporaryFile_twice_witness:
  "deleteTemporaryFile never 1 db0 = (Inr temp0, db0\<lparr>temp_file_tbl := []\<rparr>) \<and>
   deleteTemporaryFile never 1 (db0\<lparr>temp_file_tbl := []\<rparr>)
     = (Inl PrismaRecordNotFound, db0\<lparr>temp_file_tbl := []\<rparr>)"
proof -
  have a: "deleteTemporaryFile never 1 db0 = (Inr temp0, db0\<lparr>temp_file_tbl := []\<rparr>)"
    by code_simp
  have n: "\<not> never 0"
    by (simp add: never_def)
  have "deleteTemporaryFile never 1 (db0\<lparr>temp_file_tbl := []\<rparr>)
          = (Inl (if never 0 then PrismaRejected else PrismaRecordNotFound),
             db0\<lparr>temp_file_tbl := []\<rparr>)"
    by (rule deleteTemporaryFile_twice [OF a, THEN conjunct2, THEN conjunct2])
  with n a show ?thesis
    by simp
qed

text \<open>
  C8 as stated fails: the second call does not succeed, and the first call leaves the
  blob store as it was.
\<close>

theorem deleteTemporaryFile_second_call_counterexample:
  "fst (deleteTemporaryFile never 1 db0) = Inr temp0 \<and>
   fst (deleteTemporaryFile never 1 (snd (deleteTemporaryFile never 1 db0)))
     = Inl PrismaRecordNotFound \<and>
   storage (snd (deleteTemporaryFile never 1 db0)) = storage db0"
  by code_simp

section \<open>Paths in a well-formed state\<close>

text \<open>
  In a well-formed state the element at position \<open>i\<close> of a path is a file whose own path
  is the first \<open>i\<close> elements. Hence a path that passes through \<open>n\<close> starts with the
  path of \<open>n\<close> followed by \<open>n\<close>, and the filter \<^verbatim>\<open>hasEvery\<close> of the service finds exactly
  the descendants.
\<close>

lemma path_of_Some:
  "path_of d i = Some r \<Longrightarrow> r \<in> set (file_path_tbl d) \<and> file_id r = i"
  by (auto simp: path_of_def find_Some_iff)

lemma path_of_unique:
  assumes "distinct (map file_id (file_path_tbl d))" and "r \<in> set (file_path_tbl d)"
  shows "path_of d (file_id r) = Some r"
proof -
  from assms(2) obtain q where q: "path_of d (file_id r) = Some q"
    by (cases "path_of d (file_id r)") (auto simp: path_of_def find_None_iff)
  then have "q \<in> set (file_path_tbl d)" "file_id q = file_id r"
    by (auto dest: path_of_Some)
  with assms have "q = r"
    by (meson distinct_map inj_onD)
  with q show ?thesis by simp
qed

lemma paths_closed_nth:
  assumes pc: "paths_closed d"
  shows "r \<in> set (file_path_tbl d) \<Longrightarrow> i < length (path r) \<Longrightarrow>
         \<exists>q \<in> set (file_path_tbl d). file_id q = path r ! i \<and> path q = take i (path r)"
proof (induction "length (path r)" arbitrary: r rule: less_induct)
  case less
  from less.prems have ne: "path r \<noteq> []" by auto
  with pc less.prems(1) obtain q where q: "path_of d (last (path r)) = Some q"
    and pq: "path q = butlast (path r)"
    by (auto simp: paths_closed_def list_all_iff)
  from q have qin: "q \<in> set (file_path_tbl d)" and qid: "file_id q = last (path r)"
    by (auto dest: path_of_Some)
  show ?case
  proof (cases "i = length (path r) - 1")
    case True
    with ne qin qid pq show ?thesis
      by (auto simp: last_conv_nth butlast_conv_take)
  next
    case False
    with less.prems(2) have i: "i < length (path q)"
      by (simp add: pq)
    from ne have "length (path q) < length (path r)"
      by (simp add: pq)
    from less.hyps [OF this qin i] obtain q' where "q' \<in> set (file_path_tbl d)"
      "file_id q' = path q ! i" "path q' = take i (path q)"
      by blast
    with i show ?thesis
      by (auto simp: pq nth_butlast butlast_conv_take)
  qed
qed

lemma path_through:
  assumes "keys_unique d" "paths_closed d"
    and "path_of d n = Some np"
    and "r \<in> set (file_path_tbl d)" and "n \<in> set (path r)"
  shows "\<exists>rest. path r = path np @ n # rest"
proof -
  from assms(5) obtain i where i: "i < length (path r)" "path r ! i = n"
    by (auto simp: in_set_conv_nth)
  from paths_closed_nth [OF assms(2) assms(4) i(1)] obtain q where
    q: "q \<in> set (file_path_tbl d)" "file_id q = n" "path q = take i (path r)"
    using i(2) by auto
  from assms(1) q(1) have "path_of d (file_id q) = Some q"
    by (simp add: keys_unique_def path_of_unique)
  with q(2) assms(3) have "np = q" by simp
  moreover from i(1) have "path r = take i (path r) @ path r ! i # drop (Suc i) (path r)"
    by (rule id_take_nth_drop)
  ultimately have "path r = path np @ n # drop (Suc i) (path r)"
    using q(3) i(2) by simp
  then show ?thesis ..
qed

lemma hasEvery_iff:
  assumes "keys_unique d" "paths_closed d"
    and "path_of d n = Some np" and "r \<in> set (file_path_tbl d)"
  shows "hasEvery (path r) (path np @ [n]) \<longleftrightarrow> n \<in> set (path r)"
proof
  assume "hasEvery (path r) (path np @ [n])"
  then show "n \<in> set (path r)"
    by (simp add: hasEvery_def)
next
  assume "n \<in> set (path r)"
  from path_through [OF assms this] obtain rest where "path r = path np @ n # rest" ..
  then show "hasEvery (path r) (path np @ [n])"
    by (simp add: hasEvery_def list_all_iff)
qed

lemma findMany_descendants:
  assumes "keys_unique d" "paths_closed d" and "path_of d n = Some np"
  shows "filter (\<lambda>r. hasEvery (path r) (path np @ [n])) (file_path_tbl d) = descendantsOf d n"
  unfolding descendantsOf_def
  by (rule filter_cong [OF refl]) (rule hasEvery_iff [OF assms])

lemma not_below_itself:
  assumes "keys_unique d" "paths_closed d" and "path_of d n = Some np"
  shows "n \<notin> set (path np)"
proof
  assume "n \<in> set (path np)"
  from assms(3) have "np \<in> set (file_path_tbl d)"
    by (auto dest: path_of_Some)
  from path_through [OF assms this \<open>n \<in> set (path np)\<close>]
  show False by auto
qed

section \<open>What a successful deleteFile has done\<close>

lemma fold_storage_deleteFile:
  "fold storage_deleteFile ks d =
     d\<lparr>storage := filter (\<lambda>b. b \<notin> set ks) (storage d),
       storage_calls := storage_calls d @ ks\<rparr>"
proof (induction ks arbitrary: d)
  case Nil
  show ?case by simp
next
  case (Cons k ks)
  have "filter (\<lambda>b. b \<notin> set ks) (filter (\<lambda>b. b \<noteq> k) (storage d))
          = filter (\<lambda>b. b \<notin> set (k # ks)) (storage d)"
    by (auto intro: filter_cong)
  with Cons show ?case
    by (simp add: storage_deleteFile_def)
qed

lemma first_blob_call:
  "(if type f = block then storage_deleteFile (file_key f) d else d)
     = fold storage_deleteFile (if type f = block then [file_key f] else []) d"
  by simp

lemma findMany_file_Inr:
  "file_path_findMany_file rej xs d = Inr as \<Longrightarrow>
     as = List.map_filter (\<lambda>r. file_of d (file_id r))
            (filter (\<lambda>r. hasEvery (path r) xs) (file_path_tbl d))"
  by (simp add: file_path_findMany_file_def split: if_splits)

lemma deleteMany_Inr:
  "file_deleteMany rej ids d = Inr d3 \<Longrightarrow>
     d3 = cascade ids (d\<lparr>file_tbl := filter (\<lambda>f. id' f \<notin> set ids) (file_tbl d)\<rparr>)"
  by (simp add: file_deleteMany_def split: if_splits)

lemma delete_Inr:
  "file_delete rej i d = Inr (g, d4) \<Longrightarrow>
     file_of d i = Some g \<and>
     d4 = cascade [i] (d\<lparr>file_tbl := filter (\<lambda>x. id' x \<noteq> i) (file_tbl d)\<rparr>)"
  by (auto simp add: file_delete_def split: if_splits option.splits)

lemma deleteFile_Inr_guards:
  assumes "deleteFile sch rejects fileKey d = (Inr g, d')"
  shows "\<exists>f fp. \<not> rejects 0 \<and> find (\<lambda>f. file_key f = fileKey) (file_tbl d) = Some f \<and>
                path_of d (id' f) = Some fp \<and> \<not> is_special sch f fp"
proof (cases "rejects 0")
  case True
  with assms show ?thesis
    by (simp add: deleteFile_def file_findUniqueOrThrow_def)
next
  case r0: False
  show ?thesis
  proof (cases "find (\<lambda>f. file_key f = fileKey) (file_tbl d)")
    case None
    with assms r0 show ?thesis
      by (simp add: deleteFile_def file_findUniqueOrThrow_def)
  next
    case (Some f)
    show ?thesis
    proof (cases "path_of d (id' f)")
      case None
      with assms r0 Some show ?thesis
        by (simp add: deleteFile_def file_findUniqueOrThrow_def)
    next
      case fp: (Some fp)
      show ?thesis
      proof (cases "is_special sch f fp")
        case True
        with assms r0 Some fp show ?thesis
          by (simp add: deleteFile_def file_findUniqueOrThrow_def)
      next
        case False
        with r0 Some fp show ?thesis by blast
      qed
    qed
  qed
qed

lemma deleteFile_Inr:
  assumes ok: "deleteFile sch rejects fileKey d = (Inr g, d')"
  shows "\<exists>f fp. find (\<lambda>f. file_key f = fileKey) (file_tbl d) = Some f \<and>
           path_of d (id' f) = Some fp \<and>
           find (\<lambda>x. id' x = id' f)
             (filter (\<lambda>x. id' x \<notin> set (map id' (found_below d f fp))) (file_tbl d)) = Some g \<and>
           file_tbl d' = filter (\<lambda>x. id' x \<noteq> id' f)
             (filter (\<lambda>x. id' x \<notin> set (map id' (found_below d f fp))) (file_tbl d)) \<and>
           storage d' = filter (\<lambda>b. b \<notin> set (blob_calls f (found_below d f fp))) (storage d) \<and>
           storage_calls d' = storage_calls d @ blob_calls f (found_below d f fp)"
proof -
  from deleteFile_Inr_guards [OF ok] obtain f fp where
    r0: "\<not> rejects 0" and fnd: "find (\<lambda>f. file_key f = fileKey) (file_tbl d) = Some f"
    and po: "path_of d (id' f) = Some fp" and nsp: "\<not> is_special sch f fp"
    by blast
  define cs1 where "cs1 = (if type f = block then [file_key f] else [])"
  define d1 where "d1 = fold storage_deleteFile cs1 d"
  have d1: "(if type f = block then storage_deleteFile (file_key f) d else d) = d1"
    unfolding d1_def cs1_def by (rule first_blob_call)
  note eq = deleteFile_proceeds [where rejects = rejects, OF r0 fnd po nsp, unfolded d1]
  from ok [unfolded eq Let_def] obtain ancs d3 where
    A: "file_path_findMany_file (rejects 1) (path fp @ [id' f]) d1 = Inr ancs"
    and B: "file_deleteMany (rejects 2) (map id' ancs)
              (fold storage_deleteFile (map file_key (filter (\<lambda>a. type a = block) ancs)) d1) = Inr d3"
    and C: "file_delete (rejects 3) (id' f) d3 = Inr (g, d')"
    by (auto split: sum.splits prod.splits)
  have tbl1: "file_tbl d1 = file_tbl d" "file_path_tbl d1 = file_path_tbl d"
    by (simp_all add: d1_def fold_storage_deleteFile)
  have ancs: "ancs = found_below d f fp"
    using findMany_file_Inr [OF A]
    by (simp add: found_below_def tbl1 file_of_def)
  have d2: "fold storage_deleteFile (map file_key (filter (\<lambda>a. type a = block) ancs)) d1
              = fold storage_deleteFile (blob_calls f ancs) d"
    by (simp add: d1_def cs1_def blob_calls_def)
  note B' = deleteMany_Inr [OF B, unfolded d2]
  note C' = delete_Inr [OF C]
  have t3: "file_tbl d3 = filter (\<lambda>x. id' x \<notin> set (map id' ancs)) (file_tbl d)"
    and s3: "storage d3 = filter (\<lambda>b. b \<notin> set (blob_calls f ancs)) (storage d)"
    and c3: "storage_calls d3 = storage_calls d @ blob_calls f ancs"
    by (simp_all add: B' cascade_def fold_storage_deleteFile)
  from C' have g: "find (\<lambda>x. id' x = id' f) (file_tbl d3) = Some g"
    by (simp add: file_of_def)
  from C' have t4: "file_tbl d' = filter (\<lambda>x. id' x \<noteq> id' f) (file_tbl d3)"
    and s4: "storage d' = storage d3" and c4: "storage_calls d' = storage_calls d3"
    by (simp_all add: cascade_def)
  from fnd po g t4 s4 c4 show ?thesis
    unfolding t3 s3 c3 ancs by blast
qed

section \<open>Counting rows and storage calls\<close>

lemma file_of_Some: "file_of d i = Some a \<Longrightarrow> a \<in> set (file_tbl d) \<and> id' a = i"
  by (auto simp: file_of_def find_Some_iff)

lemma same_id_same_file:
  assumes "distinct (map id' (file_tbl d))"
    and "a \<in> set (file_tbl d)" "b \<in> set (file_tbl d)" "id' a = id' b"
  shows "a = b"
  using assms by (meson distinct_map inj_onD)

lemma same_key_same_file:
  assumes "distinct (map file_key (file_tbl d))"
    and "a \<in> set (file_tbl d)" "b \<in> set (file_tbl d)" "file_key a = file_key b"
  shows "a = b"
  using assms by (meson distinct_map inj_onD)

lemma files_of_rows:
  assumes "refs_ok d" and "set rs \<subseteq> set (file_path_tbl d)"
  shows "map id' (List.map_filter (\<lambda>r. file_of d (file_id r)) rs) = map file_id rs"
  using assms(2)
proof (induction rs)
  case Nil
  show ?case by simp
next
  case (Cons r rs)
  then have "r \<in> set (file_path_tbl d)" by simp
  with assms(1) obtain a where a: "file_of d (file_id r) = Some a"
    by (auto simp: refs_ok_def list_all_iff)
  then have "id' a = file_id r"
    by (simp add: file_of_Some)
  with a Cons show ?case
    by simp
qed

lemma files_of_rows_in_table:
  "set (List.map_filter (\<lambda>r. file_of d (file_id r)) rs) \<subseteq> set (file_tbl d)"
  by (auto simp: List.map_filter_def dest: file_of_Some)

lemma length_filter_ids:
  assumes "distinct (map k xs)" and "distinct ys" and "set ys \<subseteq> set (map k xs)"
  shows "length (filter (\<lambda>x. k x \<in> set ys) xs) = length ys"
proof -
  have "length (filter (\<lambda>x. k x \<in> set ys) xs) = length (filter (\<lambda>y. y \<in> set ys) (map k xs))"
    by (simp add: filter_map comp_def)
  also have "\<dots> = card ({y. y \<in> set ys} \<inter> set (map k xs))"
    using assms(1) by (rule distinct_length_filter)
  also from assms(3) have "{y. y \<in> set ys} \<inter> set (map k xs) = set ys"
    by auto
  also from assms(2) have "card (set ys) = length ys"
    by (rule distinct_card)
  finally show ?thesis .
qed

lemma count_list_distinct:
  "distinct xs \<Longrightarrow> count_list xs x = (if x \<in> set xs then 1 else 0)"
  by (induction xs) auto


text \<open>
  The facts about a successful call in a well-formed state: the query finds the
  descendants, the row returned is the row found by its key, and the rows deleted are
  the rows of the subtree.
\<close>

lemma deleteFile_Inr_wf:
  assumes wf: "wf_db d" and ok: "deleteFile sch rejects fileKey d = (Inr g, d')"
  shows "\<exists>fp ancs. find (\<lambda>f. file_key f = fileKey) (file_tbl d) = Some g \<and>
           path_of d (id' g) = Some fp \<and>
           ancs = found_below d g fp \<and>
           map id' ancs = map file_id (descendantsOf d (id' g)) \<and>
           id' g \<notin> set (map id' ancs) \<and>
           set (g # ancs) = set (subtree d (id' g)) \<and>
           file_tbl d' = filter (\<lambda>x. x \<notin> set (subtree d (id' g))) (file_tbl d) \<and>
           storage d' = filter (\<lambda>b. b \<notin> set (blob_calls g ancs)) (storage d) \<and>
           storage_calls d' = storage_calls d @ blob_calls g ancs"
proof -
  from wf have ku: "keys_unique d" and ro: "refs_ok d" and pc: "paths_closed d"
    by (simp_all add: wf_db_def)
  from ku have di: "distinct (map id' (file_tbl d))"
    and dp: "distinct (map file_id (file_path_tbl d))"
    by (simp_all add: keys_unique_def)
  from deleteFile_Inr [OF ok] obtain f fp where
    fnd: "find (\<lambda>f. file_key f = fileKey) (file_tbl d) = Some f"
    and po: "path_of d (id' f) = Some fp"
    and g: "find (\<lambda>x. id' x = id' f)
             (filter (\<lambda>x. id' x \<notin> set (map id' (found_below d f fp))) (file_tbl d)) = Some g"
    and t: "file_tbl d' = filter (\<lambda>x. id' x \<noteq> id' f)
             (filter (\<lambda>x. id' x \<notin> set (map id' (found_below d f fp))) (file_tbl d))"
    and s: "storage d' = filter (\<lambda>b. b \<notin> set (blob_calls f (found_below d f fp))) (storage d)"
    and c: "storage_calls d' = storage_calls d @ blob_calls f (found_below d f fp)"
    by blast
  define ancs where "ancs = found_below d f fp"
  from fnd have fin: "f \<in> set (file_tbl d)"
    by (auto simp: find_Some_iff)
  from g have "g \<in> set (file_tbl d)" "id' g = id' f"
    by (auto simp: find_Some_iff dest: nth_mem)
  with di have gf: "g = f"
    using fin by (auto intro: same_id_same_file)
  have q: "filter (\<lambda>r. hasEvery (path r) (path fp @ [id' f])) (file_path_tbl d)
             = descendantsOf d (id' f)"
    by (rule findMany_descendants [OF ku pc po])
  have sub: "set (descendantsOf d (id' f)) \<subseteq> set (file_path_tbl d)"
    by (auto simp: descendantsOf_def)
  have ids: "map id' ancs = map file_id (descendantsOf d (id' f))"
    unfolding ancs_def found_below_def q by (rule files_of_rows [OF ro sub])
  have anc_in: "set ancs \<subseteq> set (file_tbl d)"
    unfolding ancs_def found_below_def by (rule files_of_rows_in_table)
  have notin: "id' f \<notin> set (map id' ancs)"
  proof
    assume "id' f \<in> set (map id' ancs)"
    then obtain r where r: "r \<in> set (file_path_tbl d)" "id' f \<in> set (path r)" "file_id r = id' f"
      unfolding ids by (auto simp: descendantsOf_def)
    from dp r(1) have "path_of d (file_id r) = Some r"
      by (rule path_of_unique)
    with po r(3) have "r = fp" by simp
    with r(2) not_below_itself [OF ku pc po] show False by simp
  qed
  from ids have ids_set: "id' ` set ancs = file_id ` set (descendantsOf d (id' f))"
    by (metis set_map)
  have set_sub: "set (f # ancs) = set (subtree d (id' f))"
  proof (intro set_eqI iffI)
    fix x assume "x \<in> set (f # ancs)"
    with fin anc_in ids_set show "x \<in> set (subtree d (id' f))"
      by (auto simp: subtree_def)
  next
    fix x assume x: "x \<in> set (subtree d (id' f))"
    then have xin: "x \<in> set (file_tbl d)"
      and xid: "id' x = id' f \<or> id' x \<in> set (map id' ancs)"
      by (simp_all add: subtree_def ids)
    from xid show "x \<in> set (f # ancs)"
    proof
      assume "id' x = id' f"
      with di xin fin have "x = f" by (rule same_id_same_file)
      then show ?thesis by simp
    next
      assume "id' x \<in> set (map id' ancs)"
      then obtain a where a: "a \<in> set ancs" "id' x = id' a" by auto
      with anc_in have "a \<in> set (file_tbl d)" by auto
      from di xin this a(2) have "x = a" by (rule same_id_same_file)
      with a show ?thesis by simp
    qed
  qed
  have t': "file_tbl d' = filter (\<lambda>x. x \<notin> set (subtree d (id' f))) (file_tbl d)"
    unfolding t filter_filter
    by (rule filter_cong [OF refl]) (auto simp: subtree_def ids ancs_def [symmetric])
  from fnd po ids notin set_sub t' s c show ?thesis
    unfolding gf ancs_def by blast
qed

lemma blob_calls_map:
  "blob_calls f ancs = map file_key (filter (\<lambda>a. type a = block) (f # ancs))"
  by (simp add: blob_calls_def)

lemma blob_calls_distinct:
  assumes ku: "keys_unique d" and sub: "set (f # ancs) \<subseteq> set (file_tbl d)"
    and di: "distinct (map id' (f # ancs))"
  shows "distinct (blob_calls f ancs)"
proof -
  from ku have "inj_on file_key (set (file_tbl d))"
    by (simp add: keys_unique_def distinct_map)
  with sub have "inj_on file_key (set (f # ancs))"
    by (rule inj_on_subset [rotated])
  moreover from di have "distinct (f # ancs)"
    by (rule distinct_map [THEN iffD1, THEN conjunct1])
  ultimately have "distinct (map file_key (f # ancs))"
    by (simp only: distinct_map simp_thms)
  then show ?thesis
    unfolding blob_calls_map by (rule distinct_map_filter)
qed

text \<open>
  C3. In a well-formed state, a call of \<^verbatim>\<open>deleteFile\<close> that returns has returned the
  node \<open>g\<close> that the key given to it names; it has removed the rows of the subtree of
  that node and no other row, which are one more than the node has descendants; and it
  has invoked \<^verbatim>\<open>storageService.deleteFile\<close> once with the key of each block of the
  subtree, never with the key of another file and with no other key.
\<close>

theorem deleteFile_removes_subtree:
  assumes wf: "wf_db d" and ok: "deleteFile sch rejects fileKey d = (Inr g, d')"
  shows "find (\<lambda>f. file_key f = fileKey) (file_tbl d) = Some g \<and>
         file_key g = fileKey \<and>
         length (file_tbl d') + (length (descendantsOf d (id' g)) + 1) = length (file_tbl d) \<and>
         file_tbl d' = filter (\<lambda>x. x \<notin> set (subtree d (id' g))) (file_tbl d) \<and>
         (\<exists>cs. storage_calls d' = storage_calls d @ cs \<and>
               (\<forall>x \<in> set (file_tbl d).
                   count_list cs (file_key x) =
                     (if x \<in> set (subtree d (id' g)) \<and> type x = block then 1 else 0)) \<and>
               set cs \<subseteq> file_key ` set (file_tbl d))"
proof -
  from wf have ku: "keys_unique d"
    by (simp add: wf_db_def)
  then have di: "distinct (map id' (file_tbl d))"
    and dk: "distinct (map file_key (file_tbl d))"
    and dp: "distinct (map file_id (file_path_tbl d))"
    by (simp_all add: keys_unique_def)
  from deleteFile_Inr_wf [OF wf ok] obtain fp ancs where
    fk: "find (\<lambda>f. file_key f = fileKey) (file_tbl d) = Some g"
    and fnd: "path_of d (id' g) = Some fp"
    and ids: "map id' ancs = map file_id (descendantsOf d (id' g))"
    and notin: "id' g \<notin> set (map id' ancs)"
    and set_sub: "set (g # ancs) = set (subtree d (id' g))"
    and t: "file_tbl d' = filter (\<lambda>x. x \<notin> set (subtree d (id' g))) (file_tbl d)"
    and c: "storage_calls d' = storage_calls d @ blob_calls g ancs"
    by blast
  let ?F = "file_tbl d"
  let ?ys = "id' g # map id' ancs"
  have sub: "set (g # ancs) \<subseteq> set ?F"
    unfolding set_sub by (auto simp: subtree_def)
  have "distinct (map file_id (descendantsOf d (id' g)))"
    unfolding descendantsOf_def using dp by (rule distinct_map_filter)
  with notin have dys: "distinct ?ys"
    by (simp add: ids)
  from sub have ys_sub: "set ?ys \<subseteq> set (map id' ?F)"
    by auto
  have in_sub: "length (filter (\<lambda>x. id' x \<in> set ?ys) ?F) = length ?ys"
    using di dys ys_sub by (rule length_filter_ids)
  have "file_tbl d' = filter (\<lambda>x. \<not> id' x \<in> set ?ys) ?F"
    unfolding t by (rule filter_cong [OF refl]) (auto simp: subtree_def ids)
  then have "length (file_tbl d') + length (filter (\<lambda>x. id' x \<in> set ?ys) ?F) = length ?F"
    by (simp only: add.commute [of "length (filter (\<lambda>x. \<not> id' x \<in> set ?ys) ?F)"]
          sum_length_filter_compl)
  with in_sub have count:
    "length (file_tbl d') + (length (descendantsOf d (id' g)) + 1) = length ?F"
    by (simp add: ids [THEN arg_cong, where f = length, simplified])
  let ?cs = "blob_calls g ancs"
  from dys have "distinct (map id' (g # ancs))"
    by simp
  with ku sub have dcs: "distinct ?cs"
    by (rule blob_calls_distinct)
  have once: "count_list ?cs (file_key x) =
                (if x \<in> set (subtree d (id' g)) \<and> type x = block then 1 else 0)"
    if x: "x \<in> set ?F" for x
  proof -
    have "file_key x \<in> set ?cs \<longleftrightarrow> x \<in> set (g # ancs) \<and> type x = block"
    proof
      assume "file_key x \<in> set ?cs"
      then obtain a where a: "a \<in> set (g # ancs)" "type a = block" "file_key x = file_key a"
        unfolding blob_calls_map by (auto split: if_splits)
      from a(1) sub have "a \<in> set ?F" by blast
      from dk x this a(3) have "x = a" by (rule same_key_same_file)
      with a show "x \<in> set (g # ancs) \<and> type x = block" by simp
    next
      assume "x \<in> set (g # ancs) \<and> type x = block"
      then show "file_key x \<in> set ?cs"
        unfolding blob_calls_map by auto
    qed
    with dcs show ?thesis
      by (simp only: count_list_distinct set_sub)
  qed
  have "set ?cs \<subseteq> file_key ` set ?F"
    using sub unfolding blob_calls_map by auto
  with count t c once have rest:
    "length (file_tbl d') + (length (descendantsOf d (id' g)) + 1) = length (file_tbl d) \<and>
     file_tbl d' = filter (\<lambda>x. x \<notin> set (subtree d (id' g))) (file_tbl d) \<and>
     (\<exists>cs. storage_calls d' = storage_calls d @ cs \<and>
           (\<forall>x \<in> set (file_tbl d).
               count_list cs (file_key x) =
                 (if x \<in> set (subtree d (id' g)) \<and> type x = block then 1 else 0)) \<and>
           set cs \<subseteq> file_key ` set (file_tbl d))"
    by blast
  from fk have "file_key g = fileKey"
    by (auto simp: find_Some_iff)
  with fk rest show ?thesis
    by (elim conjE) (intro conjI; assumption)
qed

theorem deleteFile_removes_subtree_witness:
  "wf_db db0 \<and>
   fst (deleteFile sch0 never ''k5'' db0) = Inr (mk_file 5 ''k5'' container ''sub'') \<and>
   find (\<lambda>f. file_key f = ''k5'') (file_tbl db0) = Some (mk_file 5 ''k5'' container ''sub'') \<and>
   length (file_tbl (snd (deleteFile sch0 never ''k5'' db0))) + (length (descendantsOf db0 5) + 1)
     = length (file_tbl db0) \<and>
   map id' (file_tbl (snd (deleteFile sch0 never ''k5'' db0))) = [1, 2, 3, 4, 7, 10] \<and>
   storage_calls (snd (deleteFile sch0 never ''k5'' db0)) = [''k6'']"
proof -
  let ?g = "mk_file 5 ''k5'' container ''sub''"
  have wf: "wf_db db0"
    by code_simp
  have r: "fst (deleteFile sch0 never ''k5'' db0) = Inr ?g"
    by code_simp
  then have ok: "deleteFile sch0 never ''k5'' db0 = (Inr ?g, snd (deleteFile sch0 never ''k5'' db0))"
    by (simp add: prod_eq_iff)
  have i: "id' ?g = 5"
    by code_simp
  have t: "map id' (file_tbl (snd (deleteFile sch0 never ''k5'' db0))) = [1, 2, 3, 4, 7, 10]"
    by code_simp
  have c: "storage_calls (snd (deleteFile sch0 never ''k5'' db0)) = [''k6'']"
    by code_simp
  note th = deleteFile_removes_subtree [OF wf ok]
  note a = th [THEN conjunct1]
  note b = th [THEN conjunct2, THEN conjunct2, THEN conjunct1, unfolded i]
  from wf r a b t c show ?thesis
    by (intro conjI)
qed

section \<open>Blobs and rows\<close>

lemma deleteFile_Inr_blobs:
  assumes ku: "keys_unique d" and bp: "blobs_present d"
    and ok: "deleteFile sch rejects fileKey d = (Inr g, d')"
  shows "blobs_present d'"
proof -
  from ku have dk: "distinct (map file_key (file_tbl d))"
    by (simp add: keys_unique_def)
  from deleteFile_Inr [OF ok] obtain f fp where
    fnd: "find (\<lambda>f. file_key f = fileKey) (file_tbl d) = Some f"
    and t: "file_tbl d' = filter (\<lambda>x. id' x \<noteq> id' f)
             (filter (\<lambda>x. id' x \<notin> set (map id' (found_below d f fp))) (file_tbl d))"
    and s: "storage d' = filter (\<lambda>b. b \<notin> set (blob_calls f (found_below d f fp))) (storage d)"
    by blast
  let ?ancs = "found_below d f fp"
  from fnd have "f \<in> set (file_tbl d)"
    by (auto simp: find_Some_iff)
  moreover have "set ?ancs \<subseteq> set (file_tbl d)"
    unfolding found_below_def by (rule files_of_rows_in_table)
  ultimately have sub: "set (f # ?ancs) \<subseteq> set (file_tbl d)"
    by simp
  have "file_key x \<in> set (storage d')" if x: "x \<in> set (file_tbl d')" and b: "type x = block" for x
  proof -
    from x have xin: "x \<in> set (file_tbl d)" and xid: "id' x \<notin> set (map id' (f # ?ancs))"
      by (auto simp: t)
    from bp xin b have present: "file_key x \<in> set (storage d)"
      by (simp add: blobs_present_def list_all_iff)
    have "file_key x \<notin> set (blob_calls f ?ancs)"
    proof
      assume "file_key x \<in> set (blob_calls f ?ancs)"
      then obtain a where a: "a \<in> set (f # ?ancs)" "file_key x = file_key a"
        unfolding blob_calls_map by (auto split: if_splits)
      from a(1) sub have "a \<in> set (file_tbl d)" by blast
      from dk xin this a(2) have "x = a" by (rule same_key_same_file)
      with a(1) xid show False by auto
    qed
    with present show ?thesis
      by (simp add: s)
  qed
  then show ?thesis
    by (simp add: blobs_present_def list_all_iff)
qed

text \<open>
  C7 as stated fails: \<^verbatim>\<open>deleteFile\<close> issues its storage calls before it deletes rows. When
  a row deletion is rejected, the block rows are still in the table and their blobs are
  gone.
\<close>

theorem deleteFile_dangling_rows_counterexample:
  "blobs_present db0 \<and> wf_db db0 \<and>
   fst (deleteFile sch0 (only_at 2) ''k3'' db0) = Inl PrismaRejected \<and>
   mk_file 4 ''k4'' block ''a.txt'' \<in> set (file_tbl (snd (deleteFile sch0 (only_at 2) ''k3'' db0))) \<and>
   ''k4'' \<notin> set (storage (snd (deleteFile sch0 (only_at 2) ''k3'' db0))) \<and>
   \<not> blobs_present (snd (deleteFile sch0 (only_at 2) ''k3'' db0))"
  by code_simp

text \<open>
  C1. \<^verbatim>\<open>deleteFile\<close> deletes the rows with two statements, \<^verbatim>\<open>deleteMany\<close> for the rows
  found below the file and \<^verbatim>\<open>delete\<close> for the file, and not inside a transaction. When
  the second statement is rejected, the rows deleted by the first stay deleted: of the
  subtree of \<open>docs\<close> (the files 3, 4, 5, 6 and 10) only the row of \<open>docs\<close> is left.
\<close>

theorem deleteFile_partial_delete:
  "wf_db db0 \<and>
   deleteFile sch0 (only_at 3) ''k3'' db0 =
     (Inl PrismaRejected,
      db0\<lparr>file_tbl := [mk_file 1 ''k1'' container ''root'', mk_file 2 ''k2'' container ''trash'',
                       mk_file 3 ''k3'' container ''docs'', mk_file 7 ''k7'' container ''home''],
          file_path_tbl := [mk_path 1 [], mk_path 2 [1], mk_path 3 [1], mk_path 7 [1]],
          temp_file_tbl := [temp0],
          storage := [],
          storage_calls := [''k4'', ''k6'']\<rparr>) \<and>
   map id' (subtree db0 3) = [3, 4, 5, 6, 10]"
  by code_simp

section \<open>What moveToTrash does\<close>

lemma moveToTrash_Inl:
  assumes "moveToTrash sch rejects memberId rootFileId targetFileKey d = (Inl e, d')"
  shows "d' = d"
  using assms
  by (auto simp: moveToTrash_def transaction_def Let_def
        split: sum.splits list.splits option.splits prod.splits if_splits)

lemma moveToTrash_Inr:
  assumes "moveToTrash sch rejects memberId rootFileId targetFileKey d = (Inr b, d')"
  shows "\<exists>trash_id trash_fp target tfp.
           file_findMany_trash False sch memberId rootFileId d = Inr [(trash_id, Some trash_fp)] \<and>
           find (\<lambda>f. file_key f = targetFileKey) (file_tbl d) = Some target \<and>
           path_of d (id' target) = Some tfp \<and>
           \<not> is_special sch target tfp \<and>
           run_statements
             (map (\<lambda>(j, ancestor).
                     file_path_update (rejects (3 + j)) (file_id ancestor)
                       ((path trash_fp @ [trash_id]) @
                        drop (length (path tfp @ [id' target]) - 1) (path ancestor)))
                (enumerate 0
                   (filter (\<lambda>r. hasEvery (path r) (path tfp @ [id' target])) (file_path_tbl d)
                    @ [tfp]))) d = Inr d'"
proof -
  from assms have r0: "\<not> rejects 0"
    by (auto simp: moveToTrash_def file_findMany_trash_def)
  with assms obtain trash_id trash_fp where
    tr: "file_findMany_trash False sch memberId rootFileId d = Inr [(trash_id, Some trash_fp)]"
    by (cases "file_findMany_trash False sch memberId rootFileId d")
       (auto simp: moveToTrash_def split: list.splits option.splits if_splits)
  from assms r0 tr have r1: "\<not> rejects 1"
    by (auto simp: moveToTrash_def file_findUniqueOrThrow_def)
  from assms r0 tr r1 obtain target where
    fnd: "find (\<lambda>f. file_key f = targetFileKey) (file_tbl d) = Some target"
    by (cases "find (\<lambda>f. file_key f = targetFileKey) (file_tbl d)")
       (auto simp: moveToTrash_def file_findUniqueOrThrow_def)
  from assms r0 tr r1 fnd obtain tfp where po: "path_of d (id' target) = Some tfp"
    by (cases "path_of d (id' target)")
       (auto simp: moveToTrash_def file_findUniqueOrThrow_def)
  from assms r0 tr r1 fnd po have nsp: "\<not> is_special sch target tfp"
    by (auto simp: moveToTrash_def file_findUniqueOrThrow_def)
  from assms r0 tr r1 fnd po nsp have r2: "\<not> rejects 2"
    by (auto simp: moveToTrash_def file_findUniqueOrThrow_def file_path_findMany_def)
  from assms r0 tr r1 fnd po nsp r2 have
    "run_statements
       (map (\<lambda>(j, ancestor).
               file_path_update (rejects (3 + j)) (file_id ancestor)
                 ((path trash_fp @ [trash_id]) @
                  drop (length (path tfp @ [id' target]) - 1) (path ancestor)))
          (enumerate 0
             (filter (\<lambda>r. hasEvery (path r) (path tfp @ [id' target])) (file_path_tbl d)
              @ [tfp]))) d = Inr d'"
    by (simp add: moveToTrash_def file_findUniqueOrThrow_def file_path_findMany_def Let_def
          transaction_def split: sum.splits)
  with tr fnd po nsp show ?thesis
    by blast
qed

lemma file_path_update_Inr:
  "file_path_update rej i p d = Inr d' \<Longrightarrow>
     d' = d\<lparr>file_path_tbl :=
             map (\<lambda>r. if file_id r = i then r\<lparr>path := p\<rparr> else r) (file_path_tbl d)\<rparr>"
  by (auto simp: file_path_update_def split: if_splits option.splits)

lemma run_updates_Inr:
  "run_statements
     (map (\<lambda>(j, a). file_path_update (rejects (3 + j)) (file_id a) (newp a)) (enumerate k ts)) d
     = Inr d' \<Longrightarrow>
   d' = d\<lparr>file_path_tbl :=
           fold (\<lambda>a. map (\<lambda>r. if file_id r = file_id a then r\<lparr>path := newp a\<rparr> else r)) ts
             (file_path_tbl d)\<rparr>"
proof (induction ts arbitrary: k d)
  case Nil
  then show ?case by simp
next
  case (Cons a ts)
  from Cons.prems obtain d1 where
    u: "file_path_update (rejects (3 + k)) (file_id a) (newp a) d = Inr d1"
    and rest: "run_statements
      (map (\<lambda>(j, a). file_path_update (rejects (3 + j)) (file_id a) (newp a)) (enumerate (Suc k) ts))
      d1 = Inr d'"
    by (auto split: sum.splits)
  from Cons.IH [OF rest] file_path_update_Inr [OF u] show ?case
    by simp
qed

lemma fold_updates:
  assumes "distinct (map file_id ts)"
  shows "fold (\<lambda>a. map (\<lambda>r. if file_id r = file_id a then r\<lparr>path := newp a\<rparr> else r)) ts tbl
           = map (\<lambda>r. case find (\<lambda>a. file_id a = file_id r) ts of
                         None \<Rightarrow> r
                       | Some a \<Rightarrow> r\<lparr>path := newp a\<rparr>) tbl"
  using assms
proof (induction ts arbitrary: tbl)
  case Nil
  show ?case by simp
next
  case (Cons a ts)
  then have d: "distinct (map file_id ts)" and a: "file_id a \<notin> file_id ` set ts"
    by simp_all
  from a have none: "find (\<lambda>b. file_id b = file_id a) ts = None"
    unfolding find_None_iff by (metis image_eqI)
  show ?case
    by (simp add: Cons.IH [OF d] none comp_def cong: map_cong)
qed

lemma find_by_id:
  assumes dp: "distinct (map file_id tbl)" and sub: "set ts \<subseteq> set tbl" and r: "r \<in> set tbl"
  shows "find (\<lambda>a. file_id a = file_id r) ts = (if r \<in> set ts then Some r else None)"
proof (cases "find (\<lambda>a. file_id a = file_id r) ts")
  case None
  then have "r \<notin> set ts"
    by (auto simp: find_None_iff)
  with None show ?thesis by simp
next
  case (Some a)
  then have a: "a \<in> set ts" "file_id a = file_id r"
    by (auto simp: find_Some_iff dest: nth_mem)
  with sub have "a \<in> set tbl" by blast
  with dp r a(2) have "a = r"
    by (meson distinct_map inj_onD)
  with Some a(1) show ?thesis by simp
qed

lemma find_map_same:
  assumes "\<And>r. P (h r) = P r"
  shows "find P (map h xs) = map_option h (find P xs)"
  by (induction xs) (simp_all add: assms)

lemma path_of_map:
  assumes "\<And>r. file_id (h r) = file_id r"
  shows "path_of (d\<lparr>file_path_tbl := map h (file_path_tbl d)\<rparr>) i = map_option h (path_of d i)"
  by (simp add: path_of_def find_map_same assms)

lemma moveToTrash_Inr_wf:
  assumes wf: "wf_db d"
    and ok: "moveToTrash sch rejects memberId rootFileId targetFileKey d = (Inr b, d')"
  shows "\<exists>trash_id trash_fp target tfp.
           file_findMany_trash False sch memberId rootFileId d = Inr [(trash_id, Some trash_fp)] \<and>
           find (\<lambda>f. file_key f = targetFileKey) (file_tbl d) = Some target \<and>
           path_of d (id' target) = Some tfp \<and>
           d' = d\<lparr>file_path_tbl :=
                   map (\<lambda>r. if r \<in> set (descendantsOf d (id' target) @ [tfp])
                             then r\<lparr>path := (path trash_fp @ [trash_id]) @
                                              drop (length (path tfp)) (path r)\<rparr>
                             else r) (file_path_tbl d)\<rparr>"
proof -
  from wf have ku: "keys_unique d" and pc: "paths_closed d"
    by (simp_all add: wf_db_def)
  from ku have dp: "distinct (map file_id (file_path_tbl d))"
    by (simp add: keys_unique_def)
  from moveToTrash_Inr [OF ok] obtain trash_id trash_fp target tfp where
    tr: "file_findMany_trash False sch memberId rootFileId d = Inr [(trash_id, Some trash_fp)]"
    and fnd: "find (\<lambda>f. file_key f = targetFileKey) (file_tbl d) = Some target"
    and po: "path_of d (id' target) = Some tfp"
    and run: "run_statements
             (map (\<lambda>(j, ancestor).
                     file_path_update (rejects (3 + j)) (file_id ancestor)
                       ((path trash_fp @ [trash_id]) @
                        drop (length (path tfp @ [id' target]) - 1) (path ancestor)))
                (enumerate 0
                   (filter (\<lambda>r. hasEvery (path r) (path tfp @ [id' target])) (file_path_tbl d)
                    @ [tfp]))) d = Inr d'"
    by blast
  let ?R = "descendantsOf d (id' target)"
  let ?ts = "?R @ [tfp]"
  let ?newp = "\<lambda>a. (path trash_fp @ [trash_id]) @ drop (length (path tfp)) (path a)"
  have q: "filter (\<lambda>r. hasEvery (path r) (path tfp @ [id' target])) (file_path_tbl d) = ?R"
    by (rule findMany_descendants [OF ku pc po])
  from po have tfp: "tfp \<in> set (file_path_tbl d)" "file_id tfp = id' target"
    by (auto dest: path_of_Some)
  have sub: "set ?ts \<subseteq> set (file_path_tbl d)"
    using tfp(1) by (auto simp: descendantsOf_def)
  have "distinct (map file_id ?R)"
    unfolding descendantsOf_def using dp by (rule distinct_map_filter)
  moreover have "file_id tfp \<notin> file_id ` set ?R"
  proof
    assume "file_id tfp \<in> file_id ` set ?R"
    then obtain r where r: "r \<in> set (file_path_tbl d)" "id' target \<in> set (path r)"
      "file_id r = file_id tfp"
      by (auto simp: descendantsOf_def)
    from dp r(1) tfp(1) r(3) have "r = tfp"
      by (meson distinct_map inj_onD)
    with r(2) not_below_itself [OF ku pc po] show False by simp
  qed
  ultimately have dts: "distinct (map file_id ?ts)"
    by simp
  from run have "run_statements
       (map (\<lambda>(j, a). file_path_update (rejects (3 + j)) (file_id a) (?newp a)) (enumerate 0 ?ts)) d
       = Inr d'"
    by (simp add: q)
  from run_updates_Inr [OF this]
  have "d' = d\<lparr>file_path_tbl :=
                 map (\<lambda>r. case find (\<lambda>a. file_id a = file_id r) ?ts of
                             None \<Rightarrow> r
                           | Some a \<Rightarrow> r\<lparr>path := ?newp a\<rparr>) (file_path_tbl d)\<rparr>"
    by (simp only: fold_updates [OF dts])
  also have "map (\<lambda>r. case find (\<lambda>a. file_id a = file_id r) ?ts of
                             None \<Rightarrow> r
                           | Some a \<Rightarrow> r\<lparr>path := ?newp a\<rparr>) (file_path_tbl d)
             = map (\<lambda>r. if r \<in> set ?ts then r\<lparr>path := ?newp r\<rparr> else r) (file_path_tbl d)"
    by (rule map_cong [OF refl]) (simp add: find_by_id [OF dp sub])
  finally show ?thesis
    using tr fnd po by blast
qed

text \<open>
  C9. In a well-formed state, after a call of \<^verbatim>\<open>moveToTrash\<close> that returns, the path of
  the target is the path of the trash container followed by the identifier of the trash
  container; the path of every descendant, which before the call was the path of the
  target, the identifier of the target and a rest, is that trash path followed by the
  identifier of the target and the same rest; and the path of every other file is as
  before. The updates run in one transaction: a call that fails leaves the state as it
  was.
\<close>

theorem moveToTrash_paths:
  assumes wf: "wf_db d"
    and run: "moveToTrash sch rejects memberId rootFileId targetFileKey d = (res, d')"
  shows "(\<forall>e. res = Inl e \<longrightarrow> d' = d) \<and>
         (\<forall>b. res = Inr b \<longrightarrow>
            (\<exists>trash_id trash_fp target tfp.
               file_findMany_trash False sch memberId rootFileId d
                 = Inr [(trash_id, Some trash_fp)] \<and>
               find (\<lambda>f. file_key f = targetFileKey) (file_tbl d) = Some target \<and>
               path_of d (id' target) = Some tfp \<and>
               map_option path (path_of d' (id' target)) = Some (path trash_fp @ [trash_id]) \<and>
               (\<forall>r \<in> set (descendantsOf d (id' target)).
                  \<exists>rest. path r = path tfp @ id' target # rest \<and>
                         map_option path (path_of d' (file_id r))
                           = Some (path trash_fp @ trash_id # id' target # rest)) \<and>
               (\<forall>r \<in> set (file_path_tbl d).
                  file_id r \<noteq> id' target \<longrightarrow> id' target \<notin> set (path r) \<longrightarrow>
                    path_of d' (file_id r) = Some r)))"
proof (intro conjI allI impI)
  fix e assume "res = Inl e"
  with run show "d' = d"
    by (auto dest: moveToTrash_Inl)
next
  fix b assume "res = Inr b"
  with run have ok: "moveToTrash sch rejects memberId rootFileId targetFileKey d = (Inr b, d')"
    by simp
  from wf have ku: "keys_unique d" and pc: "paths_closed d"
    by (simp_all add: wf_db_def)
  from ku have dp: "distinct (map file_id (file_path_tbl d))"
    by (simp add: keys_unique_def)
  from moveToTrash_Inr_wf [OF wf ok] obtain trash_id trash_fp target tfp where
    tr: "file_findMany_trash False sch memberId rootFileId d = Inr [(trash_id, Some trash_fp)]"
    and fnd: "find (\<lambda>f. file_key f = targetFileKey) (file_tbl d) = Some target"
    and po: "path_of d (id' target) = Some tfp"
    and d': "d' = d\<lparr>file_path_tbl :=
                   map (\<lambda>r. if r \<in> set (descendantsOf d (id' target) @ [tfp])
                             then r\<lparr>path := (path trash_fp @ [trash_id]) @
                                              drop (length (path tfp)) (path r)\<rparr>
                             else r) (file_path_tbl d)\<rparr>"
    by blast
  let ?R = "descendantsOf d (id' target)"
  let ?h = "\<lambda>r. if r \<in> set (?R @ [tfp])
                 then r\<lparr>path := (path trash_fp @ [trash_id]) @ drop (length (path tfp)) (path r)\<rparr>
                 else r"
  have look: "path_of d' i = map_option ?h (path_of d i)" for i
    unfolding d' by (rule path_of_map) simp
  from po have tfp: "tfp \<in> set (file_path_tbl d)" "file_id tfp = id' target"
    by (auto dest: path_of_Some)
  have target: "map_option path (path_of d' (id' target)) = Some (path trash_fp @ [trash_id])"
    by (simp add: look po)
  have below: "\<exists>rest. path r = path tfp @ id' target # rest \<and>
                 map_option path (path_of d' (file_id r))
                   = Some (path trash_fp @ trash_id # id' target # rest)"
    if r: "r \<in> set ?R" for r
  proof -
    from r have rin: "r \<in> set (file_path_tbl d)" and thr: "id' target \<in> set (path r)"
      by (simp_all add: descendantsOf_def)
    from path_through [OF ku pc po rin thr] obtain rest where
      rest: "path r = path tfp @ id' target # rest" ..
    from dp rin have "path_of d (file_id r) = Some r"
      by (rule path_of_unique)
    with r rest have "map_option path (path_of d' (file_id r))
                   = Some (path trash_fp @ trash_id # id' target # rest)"
      by (simp add: look)
    with rest show ?thesis by blast
  qed
  have other: "path_of d' (file_id r) = Some r"
    if rin: "r \<in> set (file_path_tbl d)" and ne: "file_id r \<noteq> id' target"
      and nt: "id' target \<notin> set (path r)" for r
  proof -
    from dp rin have "path_of d (file_id r) = Some r"
      by (rule path_of_unique)
    moreover from ne nt tfp(2) have "r \<notin> set (?R @ [tfp])"
      by (auto simp: descendantsOf_def)
    ultimately show ?thesis
      by (simp add: look)
  qed
  from tr fnd po target below other
  show "\<exists>trash_id trash_fp target tfp.
               file_findMany_trash False sch memberId rootFileId d
                 = Inr [(trash_id, Some trash_fp)] \<and>
               find (\<lambda>f. file_key f = targetFileKey) (file_tbl d) = Some target \<and>
               path_of d (id' target) = Some tfp \<and>
               map_option path (path_of d' (id' target)) = Some (path trash_fp @ [trash_id]) \<and>
               (\<forall>r \<in> set (descendantsOf d (id' target)).
                  \<exists>rest. path r = path tfp @ id' target # rest \<and>
                         map_option path (path_of d' (file_id r))
                           = Some (path trash_fp @ trash_id # id' target # rest)) \<and>
               (\<forall>r \<in> set (file_path_tbl d).
                  file_id r \<noteq> id' target \<longrightarrow> id' target \<notin> set (path r) \<longrightarrow>
                    path_of d' (file_id r) = Some r)"
    by blast
qed

theorem moveToTrash_paths_witness:
  "wf_db db0 \<and>
   fst (moveToTrash sch0 never 7 1 ''k3'' db0) = Inr True \<and>
   map_option path (path_of (snd (moveToTrash sch0 never 7 1 ''k3'' db0)) 3) = Some [1, 2] \<and>
   fst (moveToTrash sch0 (only_at 5) 7 1 ''k3'' db0) = Inl PrismaRejected \<and>
   snd (moveToTrash sch0 (only_at 5) 7 1 ''k3'' db0) = db0"
proof -
  let ?d' = "snd (moveToTrash sch0 never 7 1 ''k3'' db0)"
  have wf: "wf_db db0"
    by code_simp
  have a: "fst (moveToTrash sch0 never 7 1 ''k3'' db0) = Inr True"
    by code_simp
  have b: "fst (moveToTrash sch0 (only_at 5) 7 1 ''k3'' db0) = Inl PrismaRejected"
    by code_simp
  have tr: "file_findMany_trash False sch0 7 1 db0 = Inr [(2, Some (mk_path 2 [1]))]"
    by code_simp
  have fnd: "find (\<lambda>f. file_key f = ''k3'') (file_tbl db0) = Some (mk_file 3 ''k3'' container ''docs'')"
    by code_simp
  from moveToTrash_paths [OF wf prod.collapse [symmetric], THEN conjunct2] a
  obtain trash_id trash_fp target where
    "file_findMany_trash False sch0 7 1 db0 = Inr [(trash_id, Some trash_fp)]"
    "find (\<lambda>f. file_key f = ''k3'') (file_tbl db0) = Some target"
    "map_option path (path_of ?d' (id' target)) = Some (path trash_fp @ [trash_id])"
    by blast
  with tr fnd have c: "map_option path (path_of ?d' 3) = Some [1, 2]"
    by (simp add: mk_path_def mk_file_def)
  have "snd (moveToTrash sch0 (only_at 5) 7 1 ''k3'' db0) = db0"
    using moveToTrash_paths [OF wf prod.collapse [symmetric], THEN conjunct1] b
    by blast
  with wf a b c show ?thesis
    by simp
qed

section \<open>The invariant of blobs and rows\<close>

lemma blobs_present_same:
  "file_tbl d' = file_tbl d \<and> storage d' = storage d \<Longrightarrow> blobs_present d \<Longrightarrow> blobs_present d'"
  by (simp add: blobs_present_def)

lemma run_updates_files:
  assumes "run_statements
     (map (\<lambda>(j, a). file_path_update (rejects (3 + j)) (file_id a) (newp a)) (enumerate k ts)) d
     = Inr d'"
  shows "file_tbl d' = file_tbl d \<and> storage d' = storage d"
proof -
  have "d' = d\<lparr>file_path_tbl :=
           fold (\<lambda>a. map (\<lambda>r. if file_id r = file_id a then r\<lparr>path := newp a\<rparr> else r)) ts
             (file_path_tbl d)\<rparr>"
    using assms by (rule run_updates_Inr)
  then show ?thesis
    by simp
qed

lemma moveToTrash_result_files:
  assumes "moveToTrash sch rejects memberId rootFileId targetFileKey d = (res, d')"
  shows "file_tbl d' = file_tbl d \<and> storage d' = storage d"
proof (cases res)
  case (Inl e)
  with assms have "d' = d"
    by (auto dest: moveToTrash_Inl)
  then show ?thesis
    by simp
next
  case (Inr b)
  with assms have "moveToTrash sch rejects memberId rootFileId targetFileKey d = (Inr b, d')"
    by simp
  from moveToTrash_Inr [OF this] obtain trash_id trash_fp target tfp where
    "file_findMany_trash False sch memberId rootFileId d = Inr [(trash_id, Some trash_fp)]"
    and "find (\<lambda>f. file_key f = targetFileKey) (file_tbl d) = Some target"
    and "path_of d (id' target) = Some tfp"
    and "run_statements
       (map (\<lambda>(j, ancestor).
               file_path_update (rejects (3 + j)) (file_id ancestor)
                 ((path trash_fp @ [trash_id]) @
                  drop (length (path tfp @ [id' target]) - 1) (path ancestor)))
          (enumerate 0
             (filter (\<lambda>r. hasEvery (path r) (path tfp @ [id' target])) (file_path_tbl d)
              @ [tfp]))) d = Inr d'"
    by blast
  from this(4) show ?thesis
    by (rule run_updates_files)
qed

lemma moveToTrash_files:
  "file_tbl (snd (moveToTrash sch rejects memberId rootFileId targetFileKey d)) = file_tbl d \<and>
   storage (snd (moveToTrash sch rejects memberId rootFileId targetFileKey d)) = storage d"
  by (rule moveToTrash_result_files [OF prod.collapse [symmetric]])

lemma deleteTemporaryFile_files:
  "file_tbl (snd (deleteTemporaryFile rejects fileId d)) = file_tbl d \<and>
   storage (snd (deleteTemporaryFile rejects fileId d)) = storage d"
proof (cases "temp_file_delete (rejects 0) fileId d")
  case (Inl e)
  then show ?thesis
    by (simp add: deleteTemporaryFile_def)
next
  case (Inr p)
  obtain t d' where p: "p = (t, d')"
    by (cases p)
  with Inr have "d' = d\<lparr>temp_file_tbl := filter (\<lambda>u. temp_id u \<noteq> fileId) (temp_file_tbl d)\<rparr>"
    by (auto simp: temp_file_delete_def split: if_splits option.splits)
  with Inr p show ?thesis
    by (simp add: deleteTemporaryFile_def)
qed

text \<open>
  On upload completion the blob is written before the node is created: a call of
  \<^verbatim>\<open>receiveChunk\<close> that reports completion has appended one node, whose blob is in the
  blob store and has the byte size recorded; any other call creates no node; and no call
  removes a blob.
\<close>

lemma merge_Inr:
  "merge uploadKey tot a = Inr a2 \<Longrightarrow> \<exists>bytes. blob_store a2 = (blob_store a)(uploadKey \<mapsto> bytes)"
  by (auto simp: merge_def split: if_splits)

lemma accept_cases:
  "(fst (accept uploadKey i tot b a) \<noteq> Inr True \<and>
    blob_store (snd (accept uploadKey i tot b a)) = blob_store a) \<or>
   (\<exists>bytes. fst (accept uploadKey i tot b a) = Inr True \<and>
            blob_store (snd (accept uploadKey i tot b a)) = (blob_store a)(uploadKey \<mapsto> bytes))"
proof -
  let ?a1 = "a\<lparr>scratch := (scratch a)((uploadKey, i) \<mapsto> b),
                received := (received a)(uploadKey := insert i (received a uploadKey))\<rparr>"
  show ?thesis
  proof (cases "received ?a1 uploadKey = {0 ..< tot}")
    case False
    then have "accept uploadKey i tot b a = (Inr False, ?a1)"
      unfolding accept_def Let_def by (simp only: if_False)
    then show ?thesis
      by simp
  next
    case rec: True
    have acc: "accept uploadKey i tot b a =
             (case merge uploadKey tot ?a1 of Inl e \<Rightarrow> (Inl e, ?a1) | Inr a2 \<Rightarrow> (Inr True, a2))"
      unfolding accept_def Let_def by (simp only: rec refl if_True)
    show ?thesis
    proof (cases "merge uploadKey tot ?a1")
      case (Inl e)
      with acc have "accept uploadKey i tot b a = (Inl e, ?a1)"
        by simp
      then show ?thesis
        by simp
    next
      case (Inr a2)
      from merge_Inr [OF Inr] obtain bytes where
        "blob_store a2 = (blob_store ?a1)(uploadKey \<mapsto> bytes)" ..
      moreover from acc Inr have "accept uploadKey i tot b a = (Inr True, a2)"
        by simp
      ultimately show ?thesis
        by auto
    qed
  qed
qed

lemma accept_done_blob:
  assumes "fst (accept uploadKey i tot b a) = Inr True"
  shows "\<exists>bytes. blob_store (snd (accept uploadKey i tot b a)) uploadKey = Some bytes"
  using assms accept_cases [of uploadKey i tot b a] by auto

lemma accept_keeps_blobs:
  assumes "blob_store a k \<noteq> None"
  shows "blob_store (snd (accept uploadKey i tot b a)) k \<noteq> None"
  using assms accept_cases [of uploadKey i tot b a] by auto

lemma receiveChunk_nodes:
  "(fst (receiveChunk uploadKey i b u) \<noteq> Inr True \<longrightarrow>
      nodes (snd (receiveChunk uploadKey i b u)) = nodes u) \<and>
   (fst (receiveChunk uploadKey i b u) = Inr True \<longrightarrow>
      (\<exists>bytes. blob_store (asm (snd (receiveChunk uploadKey i b u))) uploadKey = Some bytes \<and>
               nodes (snd (receiveChunk uploadKey i b u)) = nodes u @ [(uploadKey, length bytes)]))"
proof (cases "in_flight u uploadKey")
  case None
  then show ?thesis
    by (simp add: receiveChunk_def)
next
  case (Some tot)
  obtain r a' where acc: "accept uploadKey i tot b (asm u) = (r, a')"
    by (cases "accept uploadKey i tot b (asm u)")
  show ?thesis
  proof (cases r)
    case (Inl e)
    with Some acc show ?thesis
      by (simp add: receiveChunk_def)
  next
    case (Inr fin)
    show ?thesis
    proof (cases fin)
      case False
      with Some acc Inr show ?thesis
        by (simp add: receiveChunk_def)
    next
      case True
      with acc Inr have "fst (accept uploadKey i tot b (asm u)) = Inr True"
        by simp
      from accept_done_blob [OF this] acc obtain bytes where "blob_store a' uploadKey = Some bytes"
        by auto
      with Some acc Inr True show ?thesis
        by (simp add: receiveChunk_def)
    qed
  qed
qed

lemma receiveChunk_blob_store:
  assumes "blob_store (asm u) k \<noteq> None"
  shows "blob_store (asm (snd (receiveChunk uploadKey i b u))) k \<noteq> None"
proof (cases "in_flight u uploadKey")
  case None
  with assms show ?thesis
    by (simp add: receiveChunk_def)
next
  case (Some tot)
  obtain r a' where acc: "accept uploadKey i tot b (asm u) = (r, a')"
    by (cases "accept uploadKey i tot b (asm u)")
  from accept_keeps_blobs [OF assms, of uploadKey i tot b] acc
  have "blob_store a' k \<noteq> None"
    by simp
  with Some acc show ?thesis
    by (cases r) (auto simp: receiveChunk_def split: bool.splits)
qed

lemma receiveChunk_keeps_nodes:
  assumes "nodes_have_blobs u"
  shows "nodes_have_blobs (snd (receiveChunk uploadKey i b u))"
proof -
  let ?u' = "snd (receiveChunk uploadKey i b u)"
  have old: "blob_store (asm ?u') k \<noteq> None" if "(k, n) \<in> set (nodes u)" for k n
  proof -
    from assms that have "blob_store (asm u) k \<noteq> None"
      by (auto simp: nodes_have_blobs_def list_all_iff)
    then show ?thesis
      by (rule receiveChunk_blob_store)
  qed
  show ?thesis
  proof (cases "fst (receiveChunk uploadKey i b u) = Inr True")
    case False
    with receiveChunk_nodes [of uploadKey i b u] have "nodes ?u' = nodes u"
      by simp
    with old show ?thesis
      by (auto simp: nodes_have_blobs_def list_all_iff)
  next
    case True
    with receiveChunk_nodes [of uploadKey i b u] obtain bytes where
      "blob_store (asm ?u') uploadKey = Some bytes"
      "nodes ?u' = nodes u @ [(uploadKey, length bytes)]"
      by blast
    with old show ?thesis
      by (auto simp: nodes_have_blobs_def list_all_iff)
  qed
qed

lemma move_files:
  "file_tbl (snd (move sch nodeKey newParentKey d)) = file_tbl d \<and>
   storage (snd (move sch nodeKey newParentKey d)) = storage d"
  by (simp add: move_def split: option.split)

text \<open>
  C7 (amended). Let every block row have its blob, let the keys be unique, and let every
  node the registrar has created have its blob. On upload completion the blob is
  written before the node is created: \<^verbatim>\<open>receiveChunk\<close> leaves every node with its blob,
  and the node it creates on completion has its blob, of the byte size recorded, in the
  blob store. A call of \<^verbatim>\<open>deleteFile\<close> that returns leaves a state in which every block
  row has its blob; \<^verbatim>\<open>moveToTrash\<close>, \<^verbatim>\<open>move\<close> and \<^verbatim>\<open>deleteTemporaryFile\<close> leave such a
  state whatever their outcome.
\<close>

theorem service_keeps_blobs:
  assumes "keys_unique d" and "blobs_present d" and "nodes_have_blobs u"
  shows "(\<forall>g d'. deleteFile sch rejects fileKey d = (Inr g, d') \<longrightarrow> blobs_present d') \<and>
         blobs_present (snd (moveToTrash sch rejects memberId rootFileId targetFileKey d)) \<and>
         blobs_present (snd (move sch nodeKey newParentKey d)) \<and>
         blobs_present (snd (deleteTemporaryFile rejects fileId d)) \<and>
         nodes_have_blobs (snd (receiveChunk uploadKey i b u)) \<and>
         (fst (receiveChunk uploadKey i b u) = Inr True \<longrightarrow>
            (\<exists>bytes. blob_store (asm (snd (receiveChunk uploadKey i b u))) uploadKey = Some bytes \<and>
                     nodes (snd (receiveChunk uploadKey i b u))
                       = nodes u @ [(uploadKey, length bytes)])) \<and>
         (fst (receiveChunk uploadKey i b u) \<noteq> Inr True \<longrightarrow>
            nodes (snd (receiveChunk uploadKey i b u)) = nodes u)"
proof -
  have a: "\<forall>g d'. deleteFile sch rejects fileKey d = (Inr g, d') \<longrightarrow> blobs_present d'"
  proof (intro allI impI)
    fix g d' assume "deleteFile sch rejects fileKey d = (Inr g, d')"
    with assms(1,2) show "blobs_present d'"
      by (rule deleteFile_Inr_blobs)
  qed
  from moveToTrash_files assms(2)
  have b: "blobs_present (snd (moveToTrash sch rejects memberId rootFileId targetFileKey d))"
    by (rule blobs_present_same)
  from move_files assms(2)
  have c: "blobs_present (snd (move sch nodeKey newParentKey d))"
    by (rule blobs_present_same)
  from deleteTemporaryFile_files assms(2)
  have e: "blobs_present (snd (deleteTemporaryFile rejects fileId d))"
    by (rule blobs_present_same)
  from assms(3) have f: "nodes_have_blobs (snd (receiveChunk uploadKey i b u))"
    by (rule receiveChunk_keeps_nodes)
  note g = receiveChunk_nodes [of uploadKey i b u, THEN conjunct2]
  note h = receiveChunk_nodes [of uploadKey i b u, THEN conjunct1]
  from a b c e f g h show ?thesis
    by (intro conjI)
qed

theorem service_keeps_blobs_witness:
  "keys_unique db0 \<and> blobs_present db0 \<and>
   nodes_have_blobs (snd (receiveChunk ''u1'' 1 ''World'' up0)) \<and>
   fst (deleteFile sch0 never ''k5'' db0) = Inr (mk_file 5 ''k5'' container ''sub'') \<and>
   blobs_present (snd (deleteFile sch0 never ''k5'' db0)) \<and>
   mk_file 4 ''k4'' block ''a.txt'' \<in> set (file_tbl (snd (deleteFile sch0 never ''k5'' db0))) \<and>
   storage (snd (deleteFile sch0 never ''k5'' db0)) = [''k4''] \<and>
   blobs_present (snd (moveToTrash sch0 never 7 1 ''k3'' db0)) \<and>
   blobs_present (snd (deleteTemporaryFile never 1 db0)) \<and>
   fst (receiveChunk ''u1'' 0 ''Hello '' (snd (receiveChunk ''u1'' 1 ''World'' up0))) = Inr True \<and>
   nodes_have_blobs
     (snd (receiveChunk ''u1'' 0 ''Hello '' (snd (receiveChunk ''u1'' 1 ''World'' up0)))) \<and>
   nodes (snd (receiveChunk ''u1'' 0 ''Hello '' (snd (receiveChunk ''u1'' 1 ''World'' up0))))
     = [(''n0'', 3), (''u1'', 11)]"
proof -
  let ?u1 = "snd (receiveChunk ''u1'' 1 ''World'' up0)"
  have ku: "keys_unique db0"
    by code_simp
  have bp: "blobs_present db0"
    by code_simp
  have nb: "nodes_have_blobs ?u1"
    by code_simp
  have ok: "fst (deleteFile sch0 never ''k5'' db0) = Inr (mk_file 5 ''k5'' container ''sub'')"
    by code_simp
  then have eq: "deleteFile sch0 never ''k5'' db0
               = (Inr (mk_file 5 ''k5'' container ''sub''), snd (deleteFile sch0 never ''k5'' db0))"
    by (simp add: prod_eq_iff)
  have row: "mk_file 4 ''k4'' block ''a.txt''
               \<in> set (file_tbl (snd (deleteFile sch0 never ''k5'' db0)))"
    by code_simp
  have st: "storage (snd (deleteFile sch0 never ''k5'' db0)) = [''k4'']"
    by code_simp
  have fin: "fst (receiveChunk ''u1'' 0 ''Hello '' ?u1) = Inr True"
    by code_simp
  have ns: "nodes (snd (receiveChunk ''u1'' 0 ''Hello '' ?u1)) = [(''n0'', 3), (''u1'', 11)]"
    by code_simp
  note th = service_keeps_blobs [OF ku bp nb, of sch0 never "''k5''" 7 1 "''k3''" "''k5''" "''k2''"
      1 "''u1''" 0 "''Hello ''"]
  from th [THEN conjunct1, rule_format, OF eq]
  have a: "blobs_present (snd (deleteFile sch0 never ''k5'' db0))" .
  note b = th [THEN conjunct2, THEN conjunct1]
  note c = th [THEN conjunct2, THEN conjunct2, THEN conjunct2, THEN conjunct1]
  note e = th [THEN conjunct2, THEN conjunct2, THEN conjunct2, THEN conjunct2, THEN conjunct1]
  from ku bp nb ok a row st b c fin e ns show ?thesis
    by (intro conjI)
qed

section \<open>Assembling an upload\<close>














end
